(* ===== verification/Prelude.thy ===== *)
theory Prelude
  imports Main "HOL-Library.Word"
begin

text \<open>
  Shared vocabulary of the development: the machine integers of the crates as words, byte
  buffers and slices with Rust's bounds checks as options, and the conversions between bytes
  and strings.

  A Rust \<^verbatim>\<open>String\<close> or \<^verbatim>\<open>&str\<close> is a HOL \<^typ>\<open>string\<close>: the list of its UTF-8 code units
  (a HOL \<^typ>\<open>char\<close> is a byte). A \<^verbatim>\<open>Vec<u8>\<close> or \<^verbatim>\<open>&[u8]\<close> is a list of 8-bit words.
  \<open>bytes_of\<close> is \<^verbatim>\<open>as_bytes\<close>/\<^verbatim>\<open>into_bytes\<close>; the checked way back is in theory \<open>Rust_Str\<close>.
\<close>

section \<open>Machine integers\<close>

type_synonym u8 = "8 word"
type_synonym u16 = "16 word"
type_synonym u32 = "32 word"
type_synonym u64 = "64 word"
type_synonym i32 = "32 word"    \<comment> \<open>read with \<open>sint\<close>\<close>
type_synonym i64 = "64 word"    \<comment> \<open>read with \<open>sint\<close>\<close>
type_synonym usize = "64 word"  \<comment> \<open>the target is x86-64\<close>
type_synonym isize = "64 word"  \<comment> \<open>read with \<open>sint\<close>\<close>

section \<open>Collections of facts\<close>

named_theorems str_simps \<open>how the string operations act on appended and rendered strings\<close>
named_theorems trace_simps \<open>what an operation adds to a recorded call trace\<close>

section \<open>Step relations\<close>

text \<open>What every step keeps, every run keeps.\<close>

lemma steps_keep:
  assumes "R\<^sup>*\<^sup>* s s'" and "\<And>s s'. R s s' \<Longrightarrow> I s \<Longrightarrow> I s'" and "I s"
  shows "I s'"
  using assms(1,3) by (induction rule: rtranclp_induct) (auto intro: assms(2))

section \<open>Slices and buffers\<close>

text \<open>\<^verbatim>\<open>&xs[n..]\<close> and \<^verbatim>\<open>&xs[..n]\<close>: \<open>None\<close> is the out-of-bounds panic.\<close>

definition slice_from :: "nat \<Rightarrow> 'a list \<Rightarrow> 'a list option" where
  "slice_from n xs = (if n \<le> length xs then Some (drop n xs) else None)"

definition slice_to :: "nat \<Rightarrow> 'a list \<Rightarrow> 'a list option" where
  "slice_to n xs = (if n \<le> length xs then Some (take n xs) else None)"

lemma slice_from_le [simp]: "n \<le> length xs \<Longrightarrow> slice_from n xs = Some (drop n xs)"
  by (simp add: slice_from_def)

lemma slice_to_le [simp]: "n \<le> length xs \<Longrightarrow> slice_to n xs = Some (take n xs)"
  by (simp add: slice_to_def)

lemma slice_from_Some: "slice_from n xs = Some ys \<longleftrightarrow> n \<le> length xs \<and> ys = drop n xs"
  by (auto simp: slice_from_def)

lemma slice_to_Some: "slice_to n xs = Some ys \<longleftrightarrow> n \<le> length xs \<and> ys = take n xs"
  by (auto simp: slice_to_def)

lemma slice_to_None: "slice_to n xs = None \<longleftrightarrow> length xs < n"
  by (auto simp: slice_to_def)

lemma slice_from_None: "slice_from n xs = None \<longleftrightarrow> length xs < n"
  by (auto simp: slice_from_def)

text \<open>
  A foreign call that fills a caller's buffer stores some bytes at its start; a Rust slice
  keeps its length, and what the call does not store stays as it was.
\<close>

definition overwrite :: "'a list \<Rightarrow> 'a list \<Rightarrow> 'a list" where
  "overwrite buf bs = take (length buf) bs @ drop (length bs) buf"

lemma length_overwrite [simp]: "length (overwrite buf bs) = length buf"
  by (simp add: overwrite_def)

lemma take_overwrite [simp]:
  "length bs \<le> length buf \<Longrightarrow> take (length bs) (overwrite buf bs) = bs"
  by (simp add: overwrite_def)

text \<open>A short count survives the way through a machine word.\<close>

lemma of_nat_min_chunk:
  assumes "k \<le> 4096"
  shows "unat (of_nat (min k n) :: usize) = min k n" and "(of_nat (min k n) :: usize) \<noteq> -1"
proof -
  have le: "min k n \<le> 4096" using assms by simp
  then show u: "unat (of_nat (min k n) :: usize) = min k n" by (simp add: unat_of_nat)
  show "(of_nat (min k n) :: usize) \<noteq> -1"
  proof
    assume "(of_nat (min k n) :: usize) = -1"
    then have "unat (of_nat (min k n) :: usize) = unat (-1 :: usize)" by (rule arg_cong)
    with u le show False by (simp add: unsigned_minus_1_eq_mask mask_eq_exp_minus_1)
  qed
qed

section \<open>Bytes and strings\<close>

definition byte_of :: "char \<Rightarrow> u8" where
  "byte_of c = of_nat (of_char c)"

definition char_of_byte :: "u8 \<Rightarrow> char" where
  "char_of_byte b = char_of (unat b)"

definition bytes_of :: "string \<Rightarrow> u8 list" where
  "bytes_of s = map byte_of s"

definition str_of :: "u8 list \<Rightarrow> string" where
  "str_of bs = map char_of_byte bs"

lemma unat_byte_of: "unat (byte_of c) = of_char c"
proof -
  have "(of_char c :: nat) = of_char c mod 256" by simp
  also have "\<dots> < 256" by (rule mod_less_divisor) simp
  finally show ?thesis by (simp add: byte_of_def unat_of_nat)
qed

lemma char_of_byte_of [simp]: "char_of_byte (byte_of c) = c"
  by (simp add: char_of_byte_def unat_byte_of)

lemma byte_of_char_of [simp]: "byte_of (char_of_byte b) = b"
proof -
  have "unat b < 2 ^ LENGTH(8)" by (rule unsigned_less)
  then show ?thesis by (simp add: char_of_byte_def byte_of_def of_char_of)
qed

lemma byte_of_eq_iff [simp]: "byte_of c = byte_of d \<longleftrightarrow> c = d"
  by (metis char_of_byte_of)

lemma str_of_bytes_of [simp]: "str_of (bytes_of s) = s"
  by (simp add: str_of_def bytes_of_def o_def)

lemma bytes_of_str_of [simp]: "bytes_of (str_of bs) = bs"
  by (simp add: str_of_def bytes_of_def o_def)

lemma bytes_of_Nil [simp]: "bytes_of [] = []"
  by (simp add: bytes_of_def)

lemma bytes_of_Cons [simp]: "bytes_of (c # s) = byte_of c # bytes_of s"
  by (simp add: bytes_of_def)

lemma bytes_of_append [simp]: "bytes_of (s @ t) = bytes_of s @ bytes_of t"
  by (simp add: bytes_of_def)

lemma length_bytes_of [simp]: "length (bytes_of s) = length s"
  by (simp add: bytes_of_def)

lemma bytes_of_eq_iff [simp]: "bytes_of s = bytes_of t \<longleftrightarrow> s = t"
  by (metis str_of_bytes_of)

lemma byte_of_in_bytes_of [simp]: "byte_of c \<in> set (bytes_of s) \<longleftrightarrow> c \<in> set s"
  by (auto simp: bytes_of_def)

section \<open>The question mark operator\<close>

text \<open>
  An operation on a state \<open>'w\<close> yields its result and the state after it, with errors on the
  left of a sum. \<open>and_then m f\<close> is Rust's \<^verbatim>\<open>let x = m?; f(x)\<close>: an error returns early.
\<close>

definition and_then ::
  "('e + 'a) \<times> 'w \<Rightarrow> ('a \<Rightarrow> 'w \<Rightarrow> ('e + 'b) \<times> 'w) \<Rightarrow> ('e + 'b) \<times> 'w" where
  "and_then m f = (case m of (Inl e, w) \<Rightarrow> (Inl e, w) | (Inr x, w) \<Rightarrow> f x w)"

lemma and_then_simps [simp]:
  "and_then (Inl e, w) f = (Inl e, w)"
  "and_then (Inr x, w) f = f x w"
  by (simp_all add: and_then_def)

lemma and_then_eq_Inr:
  "and_then m f = (Inr y, w') \<longleftrightarrow> (\<exists>x w1. m = (Inr x, w1) \<and> f x w1 = (Inr y, w'))"
  by (cases m; cases "fst m") auto

lemma and_then_eq_Inl:
  "and_then m f = (Inl e, w') \<longleftrightarrow>
     m = (Inl e, w') \<or> (\<exists>x w1. m = (Inr x, w1) \<and> f x w1 = (Inl e, w'))"
  by (cases m; cases "fst m") auto

lemma and_then_cong [cong]:
  "m = m' \<Longrightarrow> (\<And>x w. m' = (Inr x, w) \<Longrightarrow> f x w = g x w) \<Longrightarrow> and_then m f = and_then m' g"
  by (cases m; cases "fst m") auto

text \<open>
  The same with a live local that has a destructor: on the early return the destructor runs
  after the error value has been built.
\<close>

definition then_or_drop ::
  "('w \<Rightarrow> 'w) \<Rightarrow> ('e + 'a) \<times> 'w \<Rightarrow> ('a \<Rightarrow> 'w \<Rightarrow> ('e + 'b) \<times> 'w) \<Rightarrow> ('e + 'b) \<times> 'w" where
  "then_or_drop d m f = (case m of (Inl e, w) \<Rightarrow> (Inl e, d w) | (Inr x, w) \<Rightarrow> f x w)"

lemma then_or_drop_simps [simp]:
  "then_or_drop d (Inl e, w) f = (Inl e, d w)"
  "then_or_drop d (Inr x, w) f = f x w"
  by (simp_all add: then_or_drop_def)

end
