(* ===== verification/Rust_Str.thy ===== *)
theory Rust_Str
  imports Prelude "HOL-Library.Sublist"
begin

text \<open>
  The operations of Rust's \<^verbatim>\<open>str\<close>, \<^verbatim>\<open>String\<close> and \<^verbatim>\<open>core::fmt\<close> that the crates call, as the
  standard library documents them: UTF-8 validation and lossy decoding, \<^verbatim>\<open>split\<close>,
  \<^verbatim>\<open>split_once\<close>, \<^verbatim>\<open>trim\<close> (Unicode white space), \<^verbatim>\<open>eq_ignore_ascii_case\<close>,
  \<^verbatim>\<open>parse::<usize>\<close>, and decimal and hexadecimal formatting, with the round trips between
  them.
\<close>

section \<open>UTF-8\<close>

text \<open>
  \<open>utf8_next bs\<close> looks at the front of \<open>bs\<close> as the standard library's decoder does:
  \<open>Inr n\<close> is a well-formed sequence of \<open>n\<close> bytes, \<open>Inl n\<close> a maximal ill-formed prefix of
  \<open>n\<close> bytes (reading past the end gives 0, which continues nothing).
\<close>

definition byte_at :: "u8 list \<Rightarrow> nat \<Rightarrow> u8" where
  "byte_at bs i = (if i < length bs then bs ! i else 0)"

definition is_cont :: "u8 \<Rightarrow> bool" where
  "is_cont b \<longleftrightarrow> 0x80 \<le> b \<and> b \<le> 0xBF"

definition second_of_3 :: "u8 \<Rightarrow> u8 \<Rightarrow> bool" where
  "second_of_3 b c =
     (if b = 0xE0 then 0xA0 \<le> c \<and> c \<le> 0xBF
      else if b = 0xED then 0x80 \<le> c \<and> c \<le> 0x9F
      else is_cont c)"

definition second_of_4 :: "u8 \<Rightarrow> u8 \<Rightarrow> bool" where
  "second_of_4 b c =
     (if b = 0xF0 then 0x90 \<le> c \<and> c \<le> 0xBF
      else if b = 0xF4 then 0x80 \<le> c \<and> c \<le> 0x8F
      else is_cont c)"

definition utf8_next :: "u8 list \<Rightarrow> nat + nat" where
  "utf8_next bs =
     (let b = byte_at bs 0 in
      if b < 0x80 then Inr 1
      else if 0xC2 \<le> b \<and> b \<le> 0xDF then
        (if is_cont (byte_at bs 1) then Inr 2 else Inl 1)
      else if 0xE0 \<le> b \<and> b \<le> 0xEF then
        (if \<not> second_of_3 b (byte_at bs 1) then Inl 1
         else if \<not> is_cont (byte_at bs 2) then Inl 2 else Inr 3)
      else if 0xF0 \<le> b \<and> b \<le> 0xF4 then
        (if \<not> second_of_4 b (byte_at bs 1) then Inl 1
         else if \<not> is_cont (byte_at bs 2) then Inl 2
         else if \<not> is_cont (byte_at bs 3) then Inl 3 else Inr 4)
      else Inl 1)"

lemma not_cont_0 [simp]: "\<not> is_cont 0" "\<not> second_of_3 b 0" "\<not> second_of_4 b 0"
  by (simp_all add: is_cont_def second_of_3_def second_of_4_def)

lemma byte_at_nonzero: "byte_at bs i \<noteq> 0 \<Longrightarrow> i < length bs"
  by (auto simp: byte_at_def split: if_splits)

lemma cont_in_range:
  "is_cont (byte_at bs i) \<Longrightarrow> i < length bs"
  "second_of_3 b (byte_at bs i) \<Longrightarrow> i < length bs"
  "second_of_4 b (byte_at bs i) \<Longrightarrow> i < length bs"
  by (metis byte_at_nonzero not_cont_0)+

lemma utf8_next_pos: "utf8_next bs = Inr n \<or> utf8_next bs = Inl n \<Longrightarrow> 0 < n"
  by (auto simp: utf8_next_def Let_def split: if_splits)

lemma utf8_next_le: "utf8_next bs = Inr n \<Longrightarrow> bs \<noteq> [] \<Longrightarrow> n \<le> length bs"
  by (auto simp: utf8_next_def Let_def Suc_le_eq split: if_splits dest: cont_in_range)

lemma utf8_next_cong:
  assumes nxt: "utf8_next bs = Inr n" and same: "\<And>i. i < n \<Longrightarrow> byte_at cs i = byte_at bs i"
  shows "utf8_next cs = Inr n"
proof -
  have "0 < n" using utf8_next_pos nxt by blast
  then have b0: "byte_at cs 0 = byte_at bs 0" by (rule same)
  have "1 < n \<Longrightarrow> byte_at cs 1 = byte_at bs 1" "2 < n \<Longrightarrow> byte_at cs 2 = byte_at bs 2"
    "3 < n \<Longrightarrow> byte_at cs 3 = byte_at bs 3"
    by (simp_all add: same)
  with b0 nxt show ?thesis
    by (auto simp: utf8_next_def Let_def split: if_splits)
qed

lemma utf8_next_append:
  assumes "utf8_next bs = Inr n" and "bs \<noteq> []"
  shows "utf8_next (bs @ cs) = Inr n"
  by (rule utf8_next_cong [OF assms(1)])
     (use utf8_next_le [OF assms] in \<open>simp add: byte_at_def nth_append\<close>)

lemma utf8_next_take:
  assumes "utf8_next bs = Inr n" and "bs \<noteq> []"
  shows "utf8_next (take n bs @ cs) = Inr n"
  by (rule utf8_next_cong [OF assms(1)])
     (use utf8_next_le [OF assms] in \<open>simp add: byte_at_def nth_append\<close>)

lemma utf8_drop_less:
  "bs \<noteq> [] \<Longrightarrow> utf8_next bs = Inr n \<or> utf8_next bs = Inl n \<Longrightarrow> length (drop n bs) < length bs"
  using utf8_next_pos [of bs n] by (cases bs) auto

function utf8_valid :: "u8 list \<Rightarrow> bool" where
  "utf8_valid bs =
     (if bs = [] then True
      else case utf8_next bs of Inr n \<Rightarrow> utf8_valid (drop n bs) | Inl _ \<Rightarrow> False)"
  by pat_completeness auto
termination
  by (relation "measure length") (use utf8_drop_less in auto)

function utf8_lossy :: "u8 list \<Rightarrow> u8 list" where
  "utf8_lossy bs =
     (if bs = [] then []
      else case utf8_next bs of
        Inr n \<Rightarrow> take n bs @ utf8_lossy (drop n bs)
      | Inl n \<Rightarrow> [0xEF, 0xBF, 0xBD] @ utf8_lossy (drop n bs))"
  by pat_completeness auto
termination
  by (relation "measure length") (use utf8_drop_less in auto)

declare utf8_valid.simps [simp del] utf8_lossy.simps [simp del]

lemma utf8_valid_Nil [simp]: "utf8_valid []"
  by (simp add: utf8_valid.simps)

lemma utf8_lossy_Nil [simp]: "utf8_lossy [] = []"
  by (simp add: utf8_lossy.simps)

lemma utf8_valid_append: "utf8_valid us \<Longrightarrow> utf8_valid (us @ bs) = utf8_valid bs"
proof (induction us rule: utf8_valid.induct)
  case (1 us)
  show ?case
  proof (cases "us = []")
    case False
    with "1.prems" obtain n where n: "utf8_next us = Inr n" and v: "utf8_valid (drop n us)"
      by (auto simp: utf8_valid.simps [of us] split: sum.splits)
    have "utf8_valid (us @ bs) = utf8_valid (drop n (us @ bs))"
      using False n by (simp add: utf8_valid.simps [of "us @ bs"] utf8_next_append)
    also have "drop n (us @ bs) = drop n us @ bs"
      using utf8_next_le [OF n False] by simp
    finally show ?thesis using "1.IH" [OF False n v] by simp
  qed simp
qed

lemma utf8_valid_ascii: "b < 0x80 \<Longrightarrow> utf8_valid (b # bs) = utf8_valid bs"
  by (simp add: utf8_valid.simps [of "b # bs"] utf8_next_def byte_at_def)

lemma utf8_valid_ascii_list: "\<forall>b \<in> set bs. b < 0x80 \<Longrightarrow> utf8_valid bs"
  by (induction bs) (auto simp: utf8_valid_ascii)

lemma utf8_lossy_valid [simp]: "utf8_valid (utf8_lossy bs)"
proof (induction bs rule: utf8_lossy.induct)
  case (1 bs)
  show ?case
  proof (cases "bs = []")
    case False
    show ?thesis
    proof (cases "utf8_next bs")
      case (Inr n)
      have "take n bs \<noteq> []" using utf8_next_pos [of bs n] Inr False by simp
      then have "utf8_valid (take n bs @ utf8_lossy (drop n bs)) = utf8_valid (utf8_lossy (drop n bs))"
        using Inr False utf8_next_le [OF Inr False]
        by (simp add: utf8_valid.simps [of "take n bs @ _"] utf8_next_take)
      with "1.IH"(2) [OF False Inr] Inr False show ?thesis
        by (simp add: utf8_lossy.simps [of bs])
    next
      case (Inl n)
      have "utf8_valid [0xEF, 0xBF, 0xBD]"
        by (simp add: utf8_valid.simps utf8_next_def byte_at_def is_cont_def second_of_3_def)
      from utf8_valid_append [OF this, of "utf8_lossy (drop n bs)"] "1.IH"(1) [OF False Inl] Inl False
      show ?thesis by (simp add: utf8_lossy.simps [of bs])
    qed
  qed simp
qed

lemma utf8_lossy_id: "utf8_valid bs \<Longrightarrow> utf8_lossy bs = bs"
proof (induction bs rule: utf8_valid.induct)
  case (1 bs)
  then show ?case
    by (cases "bs = []")
       (auto simp: utf8_valid.simps [of bs] utf8_lossy.simps [of bs] split: sum.splits)
qed

text \<open>\<^verbatim>\<open>core::str::from_utf8\<close> and \<^verbatim>\<open>String::from_utf8\<close>; a Rust string is always valid.\<close>

definition from_utf8 :: "u8 list \<Rightarrow> string option" where
  "from_utf8 bs = (if utf8_valid bs then Some (str_of bs) else None)"

definition str_valid :: "string \<Rightarrow> bool" where
  "str_valid s \<longleftrightarrow> utf8_valid (bytes_of s)"

lemma from_utf8_bytes_of [simp]: "str_valid s \<Longrightarrow> from_utf8 (bytes_of s) = Some s"
  by (simp add: from_utf8_def str_valid_def)

lemma from_utf8_Some: "from_utf8 bs = Some s \<Longrightarrow> bytes_of s = bs \<and> str_valid s"
  by (auto simp: from_utf8_def str_valid_def split: if_splits)

lemma str_valid_append: "str_valid s \<Longrightarrow> str_valid t \<Longrightarrow> str_valid (s @ t)"
  by (simp add: str_valid_def utf8_valid_append)

lemma str_valid_ascii: "\<forall>c \<in> set s. of_char c < (0x80::nat) \<Longrightarrow> str_valid s"
  unfolding str_valid_def
  by (rule utf8_valid_ascii_list) (auto simp: bytes_of_def word_less_nat_alt unat_byte_of)

section \<open>Splitting\<close>

text \<open>\<^verbatim>\<open>s.split_once(c)\<close> at an ASCII character.\<close>

fun split_once :: "char \<Rightarrow> string \<Rightarrow> (string \<times> string) option" where
  "split_once c [] = None"
| "split_once c (x # xs) =
     (if x = c then Some ([], xs)
      else map_option (\<lambda>(a, b). (x # a, b)) (split_once c xs))"

text \<open>\<^verbatim>\<open>s.split(c)\<close> at an ASCII character: at least one piece, empty pieces kept.\<close>

fun split_char :: "char \<Rightarrow> string \<Rightarrow> string list" where
  "split_char c [] = [[]]"
| "split_char c (x # xs) =
     (if x = c then [] # split_char c xs
      else case split_char c xs of [] \<Rightarrow> [[x]] | p # ps \<Rightarrow> (x # p) # ps)"

abbreviation CR :: char where "CR \<equiv> CHR 0x0D"
abbreviation LF :: char where "LF \<equiv> CHR 0x0A"

text \<open>\<^verbatim>\<open>s.split("\r\n")\<close>: a lone CR or LF does not separate.\<close>

fun split_crlf :: "string \<Rightarrow> string list" where
  "split_crlf [] = [[]]"
| "split_crlf [x] = [[x]]"
| "split_crlf (x # y # xs) =
     (if x = CR \<and> y = LF then [] # split_crlf xs
      else case split_crlf (y # xs) of [] \<Rightarrow> [[x]] | p # ps \<Rightarrow> (x # p) # ps)"

lemma split_char_nonempty [simp]: "split_char c s \<noteq> []"
  by (induction s) (auto split: list.splits)

lemma split_crlf_nonempty [simp]: "split_crlf s \<noteq> []"
  by (induction s rule: split_crlf.induct) (auto split: list.splits)

lemma split_once_append [str_simps]: "c \<notin> set a \<Longrightarrow> split_once c (a @ c # b) = Some (a, b)"
  by (induction a) auto

lemma split_once_None: "split_once c s = None \<longleftrightarrow> c \<notin> set s"
  by (induction s) auto

lemma split_once_Some: "split_once c s = Some (a, b) \<Longrightarrow> s = a @ c # b \<and> c \<notin> set a"
  by (induction s arbitrary: a) (auto split: if_splits)

lemma split_char_none [str_simps]: "c \<notin> set s \<Longrightarrow> split_char c s = [s]"
  by (induction s) auto

lemma split_char_append [str_simps]:
  "c \<notin> set a \<Longrightarrow> split_char c (a @ c # b) = a # split_char c b"
  by (induction a) auto

lemma split_crlf_none [str_simps]: "CR \<notin> set s \<Longrightarrow> split_crlf s = [s]"
  by (induction s rule: split_crlf.induct) auto

lemma split_crlf_append [str_simps]:
  "CR \<notin> set a \<Longrightarrow> split_crlf (a @ CR # LF # b) = a # split_crlf b"
proof (induction a)
  case (Cons x xs)
  then show ?case by (cases xs) auto
qed simp

section \<open>Trimming\<close>

text \<open>The UTF-8 encodings of the characters with Unicode's \<^verbatim>\<open>White_Space\<close> property.\<close>

definition white_space :: "string list" where
  "white_space =
     [[CHR 0x09], [CHR 0x0A], [CHR 0x0B], [CHR 0x0C], [CHR 0x0D], [CHR 0x20],
      [CHR 0xC2, CHR 0x85], [CHR 0xC2, CHR 0xA0], [CHR 0xE1, CHR 0x9A, CHR 0x80],
      [CHR 0xE2, CHR 0x80, CHR 0x80], [CHR 0xE2, CHR 0x80, CHR 0x81],
      [CHR 0xE2, CHR 0x80, CHR 0x82], [CHR 0xE2, CHR 0x80, CHR 0x83],
      [CHR 0xE2, CHR 0x80, CHR 0x84], [CHR 0xE2, CHR 0x80, CHR 0x85],
      [CHR 0xE2, CHR 0x80, CHR 0x86], [CHR 0xE2, CHR 0x80, CHR 0x87],
      [CHR 0xE2, CHR 0x80, CHR 0x88], [CHR 0xE2, CHR 0x80, CHR 0x89],
      [CHR 0xE2, CHR 0x80, CHR 0x8A], [CHR 0xE2, CHR 0x80, CHR 0xA8],
      [CHR 0xE2, CHR 0x80, CHR 0xA9], [CHR 0xE2, CHR 0x80, CHR 0xAF],
      [CHR 0xE2, CHR 0x81, CHR 0x9F], [CHR 0xE3, CHR 0x80, CHR 0x80]]"

function strip_prefixes :: "string list \<Rightarrow> string \<Rightarrow> string" where
  "strip_prefixes ps s =
     (case find (\<lambda>p. p \<noteq> [] \<and> prefix p s) ps of
        None \<Rightarrow> s
      | Some p \<Rightarrow> strip_prefixes ps (drop (length p) s))"
  by pat_completeness auto
termination
  by (relation "measure (\<lambda>(ps, s). length s)")
     (auto simp: find_Some_iff prefix_def)

declare strip_prefixes.simps [simp del]

definition trim_start :: "string \<Rightarrow> string" where
  "trim_start s = strip_prefixes white_space s"

definition trim_end :: "string \<Rightarrow> string" where
  "trim_end s = rev (strip_prefixes (map rev white_space) (rev s))"

definition trim :: "string \<Rightarrow> string" where
  "trim s = trim_end (trim_start s)"

lemma trim_start_space: "trim_start (CHR '' '' # s) = trim_start s"
  by (simp add: trim_start_def strip_prefixes.simps [of _ "CHR '' '' # s"] white_space_def)

lemma trim_space [simp]: "trim (CHR '' '' # s) = trim s"
  by (simp add: trim_def trim_start_space)

lemma strip_prefixes_id:
  "(\<And>p. p \<in> set ps \<Longrightarrow> p \<noteq> [] \<Longrightarrow> \<not> prefix p s) \<Longrightarrow> strip_prefixes ps s = s"
  by (subst strip_prefixes.simps) (force simp: find_Some_iff split: option.splits)

text \<open>A string whose first and last characters are visible ASCII is not trimmed.\<close>

definition visible :: "char \<Rightarrow> bool" where
  "visible c \<longleftrightarrow> 0x21 \<le> (of_char c :: nat) \<and> (of_char c :: nat) \<le> 0x7E"

lemma white_space_not_visible:
  assumes "p \<in> set white_space"
  shows "p \<noteq> [] \<and> \<not> visible (hd p) \<and> \<not> visible (last p)"
  using assms by (auto simp: white_space_def visible_def)

lemma trim_visible:
  assumes "s = [] \<or> (visible (hd s) \<and> visible (last s))"
  shows "trim s = s"
proof -
  have "\<not> prefix p s" if "p \<in> set white_space" for p
    using assms white_space_not_visible [OF that] by (auto simp: prefix_def)
  then have "trim_start s = s"
    unfolding trim_start_def by (intro strip_prefixes_id) auto
  moreover have "\<not> prefix (rev p) (rev s)" if "p \<in> set white_space" for p
    using assms white_space_not_visible [OF that] by (auto simp: suffix_def simp flip: suffix_to_prefix)
  then have "trim_end s = s"
    unfolding trim_end_def by (subst strip_prefixes_id) auto
  ultimately show ?thesis by (simp add: trim_def)
qed

section \<open>ASCII case\<close>

definition ascii_lower :: "char \<Rightarrow> char" where
  "ascii_lower c =
     (let n = (of_char c :: nat) in if 65 \<le> n \<and> n \<le> 90 then char_of (n + 32) else c)"

definition eq_ignore_ascii_case :: "string \<Rightarrow> string \<Rightarrow> bool" where
  "eq_ignore_ascii_case a b \<longleftrightarrow> map ascii_lower a = map ascii_lower b"

lemma eq_ignore_ascii_case_refl [simp]: "eq_ignore_ascii_case a a"
  by (simp add: eq_ignore_ascii_case_def)

section \<open>Numbers\<close>

text \<open>\<^verbatim>\<open>{}\<close> of an unsigned integer.\<close>

definition digit_char :: "nat \<Rightarrow> char" where
  "digit_char d = char_of (48 + d)"

fun dec :: "nat \<Rightarrow> string" where
  "dec n = (if n < 10 then [digit_char n] else dec (n div 10) @ [digit_char (n mod 10)])"

declare dec.simps [simp del]

text \<open>\<^verbatim>\<open>{:08x}\<close> of an \<^verbatim>\<open>i32\<close>: the two's complement bits as eight hexadecimal digits.\<close>

definition hex_char :: "nat \<Rightarrow> char" where
  "hex_char d = (if d < 10 then char_of (48 + d) else char_of (87 + d))"

definition hex8 :: "i32 \<Rightarrow> string" where
  "hex8 w = map (\<lambda>i. hex_char (unat w div 16 ^ i mod 16)) [7, 6, 5, 4, 3, 2, 1, 0]"

text \<open>\<^verbatim>\<open>{}\<close> of an \<^verbatim>\<open>i32\<close>.\<close>

definition dec_i32 :: "i32 \<Rightarrow> string" where
  "dec_i32 w = (if sint w < 0 then CHR ''-'' # dec (nat (- sint w)) else dec (nat (sint w)))"

text \<open>
  \<^verbatim>\<open>parse::<usize>()\<close>: an optional plus sign, then at least one digit and only digits, and a
  value that fits 64 bits; everything else is an error.
\<close>

definition digit_val :: "char \<Rightarrow> nat option" where
  "digit_val c =
     (let n = (of_char c :: nat) in if 48 \<le> n \<and> n \<le> 57 then Some (n - 48) else None)"

fun parse_digits :: "nat \<Rightarrow> string \<Rightarrow> nat option" where
  "parse_digits acc [] = Some acc"
| "parse_digits acc (c # cs) =
     (case digit_val c of
        None \<Rightarrow> None
      | Some d \<Rightarrow> if 10 * acc + d < 2 ^ 64 then parse_digits (10 * acc + d) cs else None)"

definition parse_usize :: "string \<Rightarrow> usize option" where
  "parse_usize s =
     (let ds = (case s of c # cs \<Rightarrow> if c = CHR ''+'' then cs else s | [] \<Rightarrow> s)
      in if ds = [] then None else map_option of_nat (parse_digits 0 ds))"

lemma digit_val_digit_char [simp]: "d < 10 \<Longrightarrow> digit_val (digit_char d) = Some d"
  by (simp add: digit_val_def digit_char_def)

lemma digit_char_visible: "d < 10 \<Longrightarrow> visible (digit_char d)"
  by (simp add: digit_char_def visible_def)

lemma digit_char_not [simp]:
  "d < 10 \<Longrightarrow> digit_char d \<noteq> CR"
  "d < 10 \<Longrightarrow> digit_char d \<noteq> CHR ''+''"
  by (auto simp: digit_char_def dest!: arg_cong [where f = "of_char :: char \<Rightarrow> nat"])

lemma parse_digits_append:
  "parse_digits acc (s @ t) =
     (case parse_digits acc s of None \<Rightarrow> None | Some a \<Rightarrow> parse_digits a t)"
  by (induction s arbitrary: acc) (auto split: option.splits)

lemma parse_digits_snoc:
  assumes "parse_digits 0 s = Some a" and "d < 10" and "10 * a + d < 2 ^ 64"
  shows "parse_digits 0 (s @ [digit_char d]) = Some (10 * a + d)"
  unfolding parse_digits_append using assms by simp

lemma parse_digits_dec: "n < 2 ^ 64 \<Longrightarrow> parse_digits 0 (dec n) = Some n"
proof (induction n rule: dec.induct)
  case (1 n)
  show ?case
  proof (cases "n < 10")
    case True
    then show ?thesis by (simp add: dec.simps [of n])
  next
    case False
    have eq: "10 * (n div 10) + n mod 10 = n" by (rule mult_div_mod_eq)
    have "n div 10 < 2 ^ 64"
      using div_le_dividend "1.prems" by (rule le_less_trans)
    from "1.IH" [OF False this]
    have "parse_digits 0 (dec (n div 10) @ [digit_char (n mod 10)]) = Some (10 * (n div 10) + n mod 10)"
      by (rule parse_digits_snoc) (simp_all only: eq "1.prems" mod_less_divisor zero_less_numeral)
    then show ?thesis using False by (simp only: eq dec.simps [of n] if_False)
  qed
qed

lemma dec_nonempty [simp]: "dec n \<noteq> []"
  by (simp add: dec.simps [of n])

lemma dec_digits: "c \<in> set (dec n) \<Longrightarrow> \<exists>d<10. c = digit_char d"
proof (induction n rule: dec.induct)
  case (1 n)
  show ?case
  proof (cases "n < 10")
    case True
    with "1.prems" show ?thesis by (auto simp: dec.simps [of n])
  next
    case False
    with "1.prems" have "c \<in> set (dec (n div 10)) \<or> c = digit_char (n mod 10)"
      by (auto simp: dec.simps [of n])
    moreover have "n mod 10 < 10" by simp
    ultimately show ?thesis using "1.IH" [OF False] by blast
  qed
qed

lemma dec_no_CR [simp]: "CR \<notin> set (dec n)"
  using dec_digits [of CR n] digit_char_not(1) by metis

lemma dec_visible: "c \<in> set (dec n) \<Longrightarrow> visible c"
  using dec_digits digit_char_visible by blast

lemma trim_dec [simp]: "trim (dec n) = dec n"
  by (rule trim_visible) (simp add: dec_visible [of _ n])

lemma parse_usize_dec: "n < 2 ^ 64 \<Longrightarrow> parse_usize (dec n) = Some (of_nat n)"
proof -
  assume n: "n < 2 ^ 64"
  obtain c cs where d: "dec n = c # cs" by (cases "dec n") auto
  then have "c \<noteq> CHR ''+''" using dec_digits [of c n] by auto
  with d parse_digits_dec [OF n] show ?thesis by (simp add: parse_usize_def)
qed

section \<open>Different numbers are written differently\<close>

lemma dec_inj: "dec m = dec n \<Longrightarrow> m < 2 ^ 64 \<Longrightarrow> n < 2 ^ 64 \<Longrightarrow> m = n"
  by (metis option.inject parse_digits_dec)

lemma dec_avoids: "(\<And>d. d < 10 \<Longrightarrow> c \<noteq> digit_char d) \<Longrightarrow> c \<notin> set (dec n)"
  using dec_digits by blast

lemma digit_char_eq: "d < 10 \<Longrightarrow> of_char (digit_char d) = (48 + d :: nat)"
  by (simp add: digit_char_def)

lemma dec_not_minus: "CHR ''-'' \<notin> set (dec n)"
  by (rule dec_avoids) (auto dest!: arg_cong [where f = "of_char :: char \<Rightarrow> nat"] simp: digit_char_eq)

lemma dec_not_blank: "CHR '' '' \<notin> set (dec n)"
  by (rule dec_avoids) (auto dest!: arg_cong [where f = "of_char :: char \<Rightarrow> nat"] simp: digit_char_eq)

lemma dec_i32_inj: "dec_i32 v = dec_i32 w \<longleftrightarrow> v = w"
proof
  assume eq: "dec_i32 v = dec_i32 w"
  have small: "nat (sint u) < 2 ^ 64" "nat (- sint u) < 2 ^ 64" for u :: i32
    using sint_less [of u] sint_greater_eq [of u] by (simp_all add: nat_less_iff)
  have head: "dec m \<noteq> CHR ''-'' # xs" for m xs
    using dec_not_minus [of m] by auto
  from eq have "sint v = sint w"
    using dec_inj [OF _ small(1) small(1), of v w] dec_inj [OF _ small(2) small(2), of v w] head
      head [THEN not_sym]
    by (auto simp: dec_i32_def split: if_splits)
  then show "v = w" by (rule signed_word_eqI)
qed simp

lemma dec_i32_not_blank: "CHR '' '' \<notin> set (dec_i32 w)"
  by (simp add: dec_i32_def dec_not_blank)

lemma append_last_word_inj:
  assumes "p @ x # s @ t = p' @ x # s' @ t" and "x \<notin> set s" and "x \<notin> set s'"
  shows "s = s'"
proof -
  from assms(1) have "(p @ x # s) = (p' @ x # s')" by (metis append.assoc append_Cons append_same_eq)
  then have "rev s @ x # rev p = rev s' @ x # rev p'"
    by (metis append.assoc append_Cons append_Nil rev.simps(2) rev_append)
  moreover have "takeWhile (\<lambda>c. c \<noteq> x) (rev u @ x # q) = rev u" if "x \<notin> set u" for u q
    by (subst takeWhile_append2) (use that in auto)
  ultimately have "rev s = rev s'" using assms(2,3) by metis
  then show ?thesis by simp
qed

lemma hex_char_inj: "a < 16 \<Longrightarrow> b < 16 \<Longrightarrow> hex_char a = hex_char b \<Longrightarrow> a = b"
  by (auto simp: hex_char_def dest!: arg_cong [where f = "of_char :: char \<Rightarrow> nat"] split: if_splits)

lemma digits_determine:
  fixes a b :: nat
  assumes "\<forall>i<n. a div 16 ^ i mod 16 = b div 16 ^ i mod 16"
  shows "a mod 16 ^ n = b mod 16 ^ n"
  using assms
proof (induction n)
  case (Suc n)
  have "x mod 16 ^ Suc n = 16 ^ n * (x div 16 ^ n mod 16) + x mod 16 ^ n" for x :: nat
    using mod_mult2_eq [of x "16 ^ n" 16] by (simp add: mult.commute)
  with Suc show ?case by simp
qed simp

lemma hex8_inj: "hex8 v = hex8 w \<longleftrightarrow> v = w"
proof
  assume "hex8 v = hex8 w"
  then have "\<forall>i \<in> set [7, 6, 5, 4, 3, 2, 1, 0].
      hex_char (unat v div 16 ^ i mod 16) = hex_char (unat w div 16 ^ i mod 16)"
    unfolding hex8_def by (simp only: map_eq_conv)
  moreover have "unat u div 16 ^ i mod 16 < 16" for u :: i32 and i by simp
  ultimately have all: "\<forall>i \<in> set [7, 6, 5, 4, 3, 2, 1, 0].
      unat v div 16 ^ i mod 16 = unat w div 16 ^ i mod 16"
    by (meson hex_char_inj)
  have "\<forall>i<8. unat v div 16 ^ i mod 16 = unat w div 16 ^ i mod 16"
  proof (intro allI impI)
    fix i :: nat assume "i < 8"
    then have "i \<in> set [7, 6, 5, 4, 3, 2, 1, 0]" by auto
    with all show "unat v div 16 ^ i mod 16 = unat w div 16 ^ i mod 16" by blast
  qed
  then have "unat v mod 16 ^ 8 = unat w mod 16 ^ 8" by (rule digits_determine)
  moreover have "unat u < 16 ^ 8" for u :: i32 using unsigned_less [of u, where 'a = nat] by simp
  ultimately have "unat v = unat w" by simp
  then show "v = w" by (simp add: unsigned_word_eqI)
qed simp

end
