(* ===== verification/Errors.thy ===== *)
theory Errors
  imports Rust_Str
begin

text \<open>
  \<^verbatim>\<open>crates/ps5/src/error.rs\<close> and \<^verbatim>\<open>crates/ps5/src/util.rs\<close>: the unified error type of the
  wrapper layer, how it is rendered, and the conversions from C return values.

  The bindings of \<^verbatim>\<open>ps5_sys\<close> are generated from the SDK's headers and the functions behind
  them live in the console's libraries. They are therefore parameters: the record \<open>sys_core\<close>
  holds the calling thread's \<^verbatim>\<open>errno\<close> slot, \<^verbatim>\<open>strerror\<close> and the numeric error codes, over a
  type \<open>'w\<close> of system states. The records of the other domains extend it.
\<close>

section \<open>The system parameters every wrapper uses\<close>

record 'w sys_core =
  sys_errno :: "'w \<Rightarrow> i32"                \<comment> \<open>\<^verbatim>\<open>*__error()\<close>\<close>
  sys_set_errno :: "i32 \<Rightarrow> 'w \<Rightarrow> 'w"      \<comment> \<open>\<^verbatim>\<open>*__error() = c\<close>\<close>
  sys_strerror :: "i32 \<Rightarrow> u8 list option" \<comment> \<open>\<open>None\<close> is the null pointer\<close>
  EINTR :: i32
  EAGAIN :: i32
  EWOULDBLOCK :: i32
  EINVAL :: i32

section \<open>Errors\<close>

datatype errno = Errno i32

primrec errno_code :: "errno \<Rightarrow> i32" where
  "errno_code (Errno c) = c"

definition errno_last :: "('w, 'x) sys_core_scheme \<Rightarrow> 'w \<Rightarrow> errno" where
  "errno_last K w = Errno (sys_errno K w)"

definition would_block :: "('w, 'x) sys_core_scheme \<Rightarrow> errno \<Rightarrow> bool" where
  "would_block K e \<longleftrightarrow> errno_code e = EAGAIN K \<or> errno_code e = EWOULDBLOCK K"

definition interrupted :: "('w, 'x) sys_core_scheme \<Rightarrow> errno \<Rightarrow> bool" where
  "interrupted K e \<longleftrightarrow> errno_code e = EINTR K"

record sce_error =
  op :: string
  code :: i32

datatype error =
    Os errno
  | Sce sce_error
  | Gai i32
  | InvalidInput string

type_synonym 'a result = "error + 'a"

definition last_os :: "('w, 'x) sys_core_scheme \<Rightarrow> 'w \<Rightarrow> error" where
  "last_os K w = Os (errno_last K w)"

definition error_sce :: "string \<Rightarrow> i32 \<Rightarrow> error" where
  "error_sce f c = Sce \<lparr>op = f, code = c\<rparr>"

definition error_gai :: "i32 \<Rightarrow> error" where
  "error_gai c = Gai c"

definition error_errno :: "error \<Rightarrow> errno option" where
  "error_errno e = (case e of Os n \<Rightarrow> Some n | _ \<Rightarrow> None)"

definition error_from_errno :: "errno \<Rightarrow> error" where
  "error_from_errno e = Os e"

text \<open>\<^verbatim>\<open>e.errno().is_some_and(|n| n.interrupted())\<close>, the retry test of the socket code.\<close>

definition is_interrupt :: "('w, 'x) sys_core_scheme \<Rightarrow> error \<Rightarrow> bool" where
  "is_interrupt K e = (case error_errno e of None \<Rightarrow> False | Some n \<Rightarrow> interrupted K n)"

section \<open>Rendering\<close>

definition errno_display :: "('w, 'x) sys_core_scheme \<Rightarrow> errno \<Rightarrow> string" where
  "errno_display K e =
     (let msg = (case sys_strerror K (errno_code e) of
                   None \<Rightarrow> ''unknown error''
                 | Some p \<Rightarrow> (case from_utf8 p of
                               Some m \<Rightarrow> m
                             | None \<Rightarrow> ''invalid error message''))
      in msg @ '' (errno '' @ dec_i32 (errno_code e) @ '')'')"

definition sce_display :: "sce_error \<Rightarrow> string" where
  "sce_display e = op e @ '' failed (sce 0x'' @ hex8 (code e) @ '')''"

definition error_display :: "('w, 'x) sys_core_scheme \<Rightarrow> error \<Rightarrow> string" where
  "error_display K e =
     (case e of
        Os n \<Rightarrow> errno_display K n
      | Sce s \<Rightarrow> sce_display s
      | Gai c \<Rightarrow> ''name resolution failed (EAI '' @ dec_i32 c @ '')''
      | InvalidInput m \<Rightarrow> ''invalid input: '' @ m)"

section \<open>Panics\<close>

text \<open>
  Where a slice bound depends on a foreign call's return value, the wrapper can panic. Such
  an operation fails with a \<open>failure\<close>: a returned error, or the panic.
\<close>

datatype failure = Fail error | Panic

primrec lift_fail :: "error + 'a \<Rightarrow> failure + 'a" where
  "lift_fail (Inl e) = Inl (Fail e)"
| "lift_fail (Inr x) = Inr x"

lemma lift_fail_eq [simp]:
  "lift_fail r = Inr x \<longleftrightarrow> r = Inr x"
  "lift_fail r = Inl (Fail e) \<longleftrightarrow> r = Inl e"
  "lift_fail r \<noteq> Inl Panic"
  by (cases r; simp)+

section \<open>Conversions of C return values (util.rs)\<close>

text \<open>\<^verbatim>\<open>CString::new\<close> fails on an interior NUL; a C string is its bytes before the NUL.\<close>

abbreviation NUL :: char where "NUL \<equiv> CHR 0x00"

definition cstr :: "string \<Rightarrow> string result" where
  "cstr s =
     (if NUL \<in> set s then Inl (InvalidInput ''string contains an interior NUL byte'')
      else Inr s)"

definition cvt_i32 :: "('w, 'x) sys_core_scheme \<Rightarrow> i32 \<times> 'w \<Rightarrow> i32 result \<times> 'w" where
  "cvt_i32 K rw =
     (case rw of (ret, w) \<Rightarrow> if ret = -1 then (Inl (last_os K w), w) else (Inr ret, w))"

definition cvt_ssize :: "('w, 'x) sys_core_scheme \<Rightarrow> isize \<times> 'w \<Rightarrow> usize result \<times> 'w" where
  "cvt_ssize K rw =
     (case rw of (ret, w) \<Rightarrow> if ret = -1 then (Inl (last_os K w), w) else (Inr ret, w))"

text \<open>A pointer is an option: \<open>None\<close> is null.\<close>

definition cvt_ptr :: "('w, 'x) sys_core_scheme \<Rightarrow> 'p option \<times> 'w \<Rightarrow> 'p result \<times> 'w" where
  "cvt_ptr K rw =
     (case rw of (ptr, w) \<Rightarrow>
        (case ptr of None \<Rightarrow> (Inl (last_os K w), w) | Some p \<Rightarrow> (Inr p, w)))"

lemma cstr_Inr: "cstr s = Inr c \<longleftrightarrow> NUL \<notin> set s \<and> c = s"
  by (auto simp: cstr_def)

lemma cvt_i32_cases:
  "cvt_i32 K (ret, w) = (Inr r, w') \<longleftrightarrow> ret \<noteq> -1 \<and> r = ret \<and> w' = w"
  "cvt_i32 K (ret, w) = (Inl e, w') \<longleftrightarrow> ret = -1 \<and> e = last_os K w \<and> w' = w"
  by (auto simp: cvt_i32_def)

lemma cvt_ssize_cases:
  "cvt_ssize K (r0, w) = (Inr r, w') \<longleftrightarrow> r0 \<noteq> -1 \<and> r = r0 \<and> w' = w"
  "cvt_ssize K (r0, w) = (Inl e, w') \<longleftrightarrow> r0 = -1 \<and> e = last_os K w \<and> w' = w"
  by (auto simp: cvt_ssize_def)

lemma is_interrupt_Os [simp]: "is_interrupt K (Os n) = interrupted K n"
  by (simp add: is_interrupt_def error_errno_def)

section \<open>What a rendered error tells\<close>

lemma errno_display_inj: "errno_display K e = errno_display K e' \<longleftrightarrow> e = e'"
proof
  assume "errno_display K e = errno_display K e'"
  then obtain p p' where "(p @ '' (errno'') @ CHR '' '' # dec_i32 (errno_code e) @ '')'' =
      (p' @ '' (errno'') @ CHR '' '' # dec_i32 (errno_code e') @ '')''"
    by (auto simp: errno_display_def Let_def)
  from append_last_word_inj [OF this dec_i32_not_blank dec_i32_not_blank]
  show "e = e'" by (cases e; cases e') (simp add: dec_i32_inj)
qed simp

text \<open>
  A rendered error identifies its code. Whatever messages the system gives its codes, also
  the same one to several, two operating system errors render alike only when they are the
  same; so do two resolver errors, two SCE errors of one operation, and two refused arguments.
\<close>

lemma rendered_errors_tell_their_code:
  "(error_display K (Os e) = error_display K (Os e') \<longleftrightarrow> e = e') \<and>
   (error_display K (error_gai c) = error_display K (error_gai c') \<longleftrightarrow> c = c') \<and>
   (error_display K (error_sce f c) = error_display K (error_sce f c') \<longleftrightarrow> c = c') \<and>
   (error_display K (InvalidInput m) = error_display K (InvalidInput m') \<longleftrightarrow> m = m')"
  by (auto simp: error_display_def sce_display_def error_sce_def error_gai_def dec_i32_inj hex8_inj
      errno_display_inj)

end
