(* ===== verification/Streams.thy ===== *)
theory Streams
  imports Errors
begin

text \<open>
  The two interfaces the byte-moving loops of the crates rely on, as locales: a sink that
  accepts a prefix of what it is handed, and a source that fills a buffer with the next bytes
  of a stream. The reference loops \<open>pump\<close> (write everything) and \<open>drain\<close> (read to the end)
  are proved correct once, against the interfaces; files, sockets and the HTTP library
  provide them.

  The contracts speak about an observation of the system state: the bytes a sink has
  accepted so far (\<open>log\<close>), the bytes a source still holds (\<open>pend\<close>).
\<close>

section \<open>Writing a whole buffer\<close>

text \<open>
  \<open>pump wr stall retry buf w\<close> calls \<open>wr\<close> until \<open>buf\<close> is used up. A call that accepts nothing
  fails with \<open>stall\<close>, an error is retried when \<open>retry\<close> says so and returned otherwise, and a
  count beyond the buffer is the slice panic. \<open>None\<close> is a loop that never ends.
\<close>

partial_function (option) pump ::
  "(u8 list \<Rightarrow> 'w \<Rightarrow> usize result \<times> 'w) \<Rightarrow> ('w \<Rightarrow> error) \<Rightarrow> (error \<Rightarrow> bool) \<Rightarrow>
   u8 list \<Rightarrow> 'w \<Rightarrow> ((failure + unit) \<times> 'w) option"
where
  "pump wr stall retry buf w =
     (if buf = [] then Some (Inr (), w)
      else case wr buf w of
        (Inl e, w1) \<Rightarrow>
          if retry e then pump wr stall retry buf w1 else Some (Inl (Fail e), w1)
      | (Inr n, w1) \<Rightarrow>
          if n = 0 then Some (Inl (Fail (stall w1)), w1)
          else (case slice_from (unat n) buf of
                  None \<Rightarrow> Some (Inl Panic, w1)
                | Some rest \<Rightarrow> pump wr stall retry rest w1))"

text \<open>What every write preserves, the loop preserves.\<close>

lemma pump_preserves:
  assumes step: "\<And>buf w r w'. wr buf w = (r, w') \<Longrightarrow> P w \<Longrightarrow> P w'"
    and "pump wr stall retry buf w = Some (r, w')" and "P w"
  shows "P w'"
proof -
  have "wr = wr \<longrightarrow> P w \<longrightarrow> P (snd (r, w'))"
    by (rule pump.raw_induct [where P = "\<lambda>wr' stall retry buf w rw. wr' = wr \<longrightarrow> P w \<longrightarrow> P (snd rw)",
          OF _ assms(2)])
       (auto split: if_splits prod.splits sum.splits option.splits; metis step)
  with \<open>P w\<close> show ?thesis by simp
qed

lemma pump_keeps:
  assumes "\<And>buf w r w'. wr buf w = (r, w') \<Longrightarrow> obs w' = obs w"
    and "pump wr stall retry buf w = Some (r, w')"
  shows "obs w' = obs w"
  using pump_preserves [OF _ assms(2), of "\<lambda>v. obs v = obs w"] assms(1) by simp

locale byte_sink =
  fixes send :: "'k \<Rightarrow> 'h \<Rightarrow> u8 list \<Rightarrow> 'w \<Rightarrow> usize result \<times> 'w"
    and accepts :: "'k \<Rightarrow> 'h \<Rightarrow> ('w \<Rightarrow> u8 list) \<Rightarrow> bool"
  assumes send_ok: "accepts k h log \<Longrightarrow> send k h buf w = (Inr n, w') \<Longrightarrow>
      unat n \<le> length buf \<and> log w' = log w @ take (unat n) buf"
    and send_err: "accepts k h log \<Longrightarrow> send k h buf w = (Inl e, w') \<Longrightarrow> log w' = log w"
begin

text \<open>Whatever happens, what was accepted is a prefix of the buffer, all of it on success.\<close>

lemma pump_log:
  assumes acc: "accepts k h log" and ret: "pump (send k h) stall retry buf w = Some (r, w')"
  shows "r \<noteq> Inl Panic \<and>
    (\<exists>sent rest. buf = sent @ rest \<and> log w' = log w @ sent \<and> (r = Inr () \<longrightarrow> rest = []))"
proof -
  let ?P = "\<lambda>wr stall retry buf w rw. wr = send k h \<longrightarrow> fst rw \<noteq> Inl Panic \<and>
    (\<exists>sent rest. buf = sent @ rest \<and> log (snd rw) = log w @ sent \<and> (fst rw = Inr () \<longrightarrow> rest = []))"
  have "?P (send k h) stall retry buf w (r, w')"
  proof (rule pump.raw_induct [where P = ?P, OF _ ret], intro impI)
    fix pump' wr buf w rw and stall :: "'w \<Rightarrow> error" and retry
    assume IH: "\<And>wr (stall :: 'w \<Rightarrow> error) retry buf w rw.
        pump' wr stall retry buf w = Some rw \<Longrightarrow> ?P wr stall retry buf w rw"
      and eq: "(if buf = [] then Some (Inr (), w)
        else case wr buf w of
          (Inl e, w1) \<Rightarrow> if retry e then pump' wr stall retry buf w1 else Some (Inl (Fail e), w1)
        | (Inr n, w1) \<Rightarrow>
            if n = 0 then Some (Inl (Fail (stall w1)), w1)
            else (case slice_from (unat n) buf of
                    None \<Rightarrow> Some (Inl Panic, w1)
                  | Some rest \<Rightarrow> pump' wr stall retry rest w1)) = Some rw"
      and wr: "wr = send k h"
    show "fst rw \<noteq> Inl Panic \<and> (\<exists>sent rest. buf = sent @ rest \<and>
        log (snd rw) = log w @ sent \<and> (fst rw = Inr () \<longrightarrow> rest = []))"
    proof (cases "buf = []")
      case True
      with eq show ?thesis by auto
    next
      case False
      obtain res w1 where s: "send k h buf w = (res, w1)" by (cases "send k h buf w")
      show ?thesis
      proof (cases res)
        case (Inl e)
        have l: "log w1 = log w" using send_err [OF acc] s Inl by blast
        show ?thesis
        proof (cases "retry e")
          case True
          with eq False wr s Inl have "pump' wr stall retry buf w1 = Some rw" by simp
          from IH [OF this] wr l show ?thesis by simp
        next
          case False
          with eq \<open>buf \<noteq> []\<close> wr s Inl l show ?thesis by auto
        qed
      next
        case (Inr n)
        have n: "unat n \<le> length buf" and l: "log w1 = log w @ take (unat n) buf"
          using send_ok [OF acc] s Inr by blast+
        show ?thesis
        proof (cases "n = 0")
          case True
          with eq False wr s Inr l show ?thesis by auto
        next
          case False
          with eq \<open>buf \<noteq> []\<close> wr s Inr n
          have "pump' wr stall retry (drop (unat n) buf) w1 = Some rw" by simp
          from IH [OF this] wr obtain sent rest where
            "fst rw \<noteq> Inl Panic" "drop (unat n) buf = sent @ rest"
            "log (snd rw) = log w1 @ sent" "fst rw = Inr () \<longrightarrow> rest = []" by blast
          then show ?thesis
            using l by (metis append.assoc append_take_drop_id)
        qed
      qed
    qed
  qed
  then show ?thesis by auto
qed

text \<open>
  The loop ends when the retried errors cannot go on for ever: some measure of the state
  falls with each of them. (Progress itself shortens the buffer.) If moreover every error is
  one to retry and no call stalls, it succeeds.
\<close>

lemma pump_total:
  assumes acc: "accepts k h log"
    and patience: "\<And>buf w e w'. send k h buf w = (Inl e, w') \<Longrightarrow> retry e \<Longrightarrow> m w' < (m w :: nat)"
  shows "\<exists>r w'. pump (send k h) stall retry buf w = Some (r, w') \<and>
    ((\<forall>buf w e w'. send k h buf w = (Inl e, w') \<longrightarrow> retry e) \<and>
     (\<forall>buf w w'. buf \<noteq> [] \<longrightarrow> send k h buf w \<noteq> (Inr 0, w')) \<longrightarrow> r = Inr ())"
    (is "\<exists>r w'. ?ret buf w r w' \<and> ?ok r")
proof (induction "length buf" arbitrary: buf w rule: less_induct)
  case shorter: less
  show ?case
  proof (induction "m w" arbitrary: w rule: less_induct)
    case calmer: less
    obtain res w1 where s: "send k h buf w = (res, w1)" by (cases "send k h buf w")
    show ?case
    proof (cases "buf = []")
      case True
      then show ?thesis by (simp add: pump.simps)
    next
      case False
      show ?thesis
      proof (cases res)
        case (Inl e)
        have "\<exists>r w'. ?ret buf w1 r w' \<and> ?ok r" if "retry e"
          by (rule calmer) (use patience [of buf w e w1] that s Inl in simp)
        with False s Inl show ?thesis
          by (cases "retry e") (auto simp: pump.simps [of _ _ _ buf w])
      next
        case (Inr n)
        have n: "unat n \<le> length buf" using send_ok [OF acc] s Inr by blast
        have "\<exists>r w'. ?ret (drop (unat n) buf) w1 r w' \<and> ?ok r" if "n \<noteq> 0"
          by (rule shorter) (use that n False in \<open>simp add: unat_gt_0\<close>)
        moreover have "\<not> (\<forall>buf w w'. buf \<noteq> [] \<longrightarrow> send k h buf w \<noteq> (Inr 0, w'))" if "n = 0"
          using that False s Inr by blast
        ultimately show ?thesis using False s Inr n
          by (cases "n = 0") (auto simp: pump.simps [of _ _ _ buf w])
      qed
    qed
  qed
qed

end

section \<open>Reading to the end\<close>

text \<open>
  \<open>drain rd chunk acc w\<close> fills \<open>chunk\<close> again and again and appends what arrived to \<open>acc\<close>,
  until a read of nothing. The buffer keeps its stale bytes between the reads.
\<close>

partial_function (option) drain ::
  "(u8 list \<Rightarrow> 'w \<Rightarrow> usize result \<times> u8 list \<times> 'w) \<Rightarrow> u8 list \<Rightarrow> u8 list \<Rightarrow> 'w \<Rightarrow>
   ((failure + unit) \<times> u8 list \<times> 'w) option"
where
  "drain rd chunk acc w =
     (case rd chunk w of
        (Inl e, chunk', w1) \<Rightarrow> Some (Inl (Fail e), acc, w1)
      | (Inr n, chunk', w1) \<Rightarrow>
          if n = 0 then Some (Inr (), acc, w1)
          else (case slice_to (unat n) chunk' of
                  None \<Rightarrow> Some (Inl Panic, acc, w1)
                | Some got \<Rightarrow> drain rd chunk' (acc @ got) w1))"

lemma drain_keeps:
  assumes "\<And>chunk w r chunk' w'. rd chunk w = (r, chunk', w') \<Longrightarrow> obs w' = obs w"
    and "drain rd chunk acc w = Some (r, acc', w')"
  shows "obs w' = obs w"
proof -
  have "rd = rd \<longrightarrow> obs (snd (snd (r, acc', w'))) = obs w"
    by (rule drain.raw_induct [where P = "\<lambda>rd' chunk acc w rw. rd' = rd \<longrightarrow> obs (snd (snd rw)) = obs w",
          OF _ assms(2)])
       (auto dest: assms(1) split: if_splits prod.splits sum.splits option.splits; metis assms(1))
  then show ?thesis by simp
qed

lemma drain_no_panic:
  assumes "\<And>chunk w n chunk' w'. rd chunk w = (Inr n, chunk', w') \<Longrightarrow> unat n \<le> length chunk'"
    and "drain rd chunk acc w = Some (r, acc', w')"
  shows "r \<noteq> Inl Panic"
proof -
  have "rd = rd \<longrightarrow> fst (r, acc', w') \<noteq> Inl Panic"
  proof (rule drain.raw_induct [where P = "\<lambda>rd' chunk acc w rw. rd' = rd \<longrightarrow> fst rw \<noteq> Inl Panic",
        OF _ assms(2)], intro impI)
    fix loop rd' chunk acc and w :: 'a and rw
    assume IH: "\<And>rd' chunk acc w rw. loop rd' chunk acc w = Some rw \<Longrightarrow> rd' = rd \<longrightarrow> fst rw \<noteq> Inl Panic"
      and "rd' = rd"
      and eq: "(case rd' chunk w of
          (Inl e, chunk', w1) \<Rightarrow> Some (Inl (Fail e), acc, w1)
        | (Inr n, chunk', w1) \<Rightarrow>
            if n = 0 then Some (Inr (), acc, w1)
            else (case slice_to (unat n) chunk' of
                    None \<Rightarrow> Some (Inl Panic, acc, w1)
                  | Some got \<Rightarrow> loop rd' chunk' (acc @ got) w1)) = Some rw"
    obtain x chunk' w1 where rd: "rd chunk w = (x, chunk', w1)" by (metis prod.exhaust)
    with eq IH \<open>rd' = rd\<close> assms(1) [of chunk w _ chunk' w1] show "fst rw \<noteq> Inl Panic"
      by (cases x) (auto split: if_splits)
  qed
  then show ?thesis by simp
qed

locale byte_source =
  fixes recv :: "'k \<Rightarrow> 'h \<Rightarrow> u8 list \<Rightarrow> 'w \<Rightarrow> usize result \<times> u8 list \<times> 'w"
    and delivers :: "'k \<Rightarrow> 'h \<Rightarrow> ('w \<Rightarrow> u8 list) \<Rightarrow> bool"
  assumes recv_len: "recv k h buf w = (r, buf', w') \<Longrightarrow> length buf' = length buf"
    and recv_ok: "delivers k h pend \<Longrightarrow> recv k h buf w = (Inr n, buf', w') \<Longrightarrow>
      unat n \<le> length buf \<and> pend w = take (unat n) buf' @ pend w'"
    and recv_eof: "delivers k h pend \<Longrightarrow> recv k h buf w = (Inr 0, buf', w') \<Longrightarrow> buf \<noteq> [] \<Longrightarrow>
      pend w = []"
    and recv_err: "delivers k h pend \<Longrightarrow> recv k h buf w = (Inl e, buf', w') \<Longrightarrow>
      pend w' = pend w"
begin

text \<open>One read of some bytes, as the loops see it.\<close>

lemma recv_some:
  assumes "delivers k h pend" and "recv k h buf w = (Inr n, buf', w')"
  shows "slice_to (unat n) buf' = Some (take (unat n) buf')"
    and "length (take (unat n) buf') = unat n"
    and "pend w = take (unat n) buf' @ pend w'"
    and "length buf' = length buf"
  using recv_len [OF assms(2)] recv_ok [OF assms] by simp_all

text \<open>
  Draining a source always returns, never panics, appends exactly the bytes consumed, and on
  success has consumed everything.
\<close>

lemma drain_total:
  assumes del: "delivers k h pend" and "chunk \<noteq> []"
  shows "\<exists>r got w'. drain (recv k h) chunk acc w = Some (r, acc @ got, w') \<and> r \<noteq> Inl Panic \<and>
    pend w = got @ pend w' \<and> (r = Inr () \<longrightarrow> pend w' = []) \<and>
    ((\<forall>buf w e buf' w'. recv k h buf w \<noteq> (Inl e, buf', w')) \<longrightarrow> r = Inr ())"
  using \<open>chunk \<noteq> []\<close>
proof (induction "length (pend w)" arbitrary: chunk acc w rule: less_induct)
  case less
  obtain res chunk' w1 where rd: "recv k h chunk w = (res, chunk', w1)"
    by (cases "recv k h chunk w")
  show ?case
  proof (cases res)
    case (Inl e)
    have "\<not> (\<forall>buf w e buf' w'. recv k h buf w \<noteq> (Inl e, buf', w'))"
      using rd Inl by blast
    with Inl rd recv_err [OF del] show ?thesis
      by (intro exI [of _ "Inl (Fail e)"] exI [of _ "[]"] exI [of _ w1])
         (auto simp: drain.simps [of _ chunk])
  next
    case (Inr n)
    note some = recv_some [OF del rd [unfolded Inr]]
    show ?thesis
    proof (cases "n = 0")
      case True
      with rd Inr some recv_eof [OF del _ less.prems] show ?thesis
        by (intro exI [of _ "Inr ()"] exI [of _ "[]"] exI [of _ w1])
           (auto simp: drain.simps [of _ chunk])
    next
      case False
      let ?got = "take (unat n) chunk'"
      have "length (pend w) = unat n + length (pend w1)"
        using some(2,3) by (metis length_append)
      then have "length (pend w1) < length (pend w)" using False by (simp add: unat_gt_0)
      moreover have "chunk' \<noteq> []" using some(4) less.prems by auto
      ultimately obtain r got w' where
        "drain (recv k h) chunk' (acc @ ?got) w1 = Some (r, (acc @ ?got) @ got, w')"
        "r \<noteq> Inl Panic" "pend w1 = got @ pend w'" "r = Inr () \<longrightarrow> pend w' = []"
        "(\<forall>buf w e buf' w'. recv k h buf w \<noteq> (Inl e, buf', w')) \<longrightarrow> r = Inr ()"
        using less.hyps by blast
      with False rd Inr some show ?thesis
        by (intro exI [of _ r] exI [of _ "?got @ got"] exI [of _ w'])
           (auto simp: drain.simps [of _ chunk])
    qed
  qed
qed

end

end
