(* ===== verification/Fd_Ownership.thy ===== *)
theory Fd_Ownership
  imports Errors "HOL-Library.Multiset"
begin

text \<open>
  Who closes a descriptor. The system parameters of a domain can be instrumented with a record
  of the descriptors handed out and closed, kept beside the state (\<open>traced\<close> in theory \<open>Net\<close>,
  \<open>traced_fs\<close> in theory \<open>Fs\<close>); the locale states what an operation that makes an owning
  handle promises about that record, and what a scope that makes and drops one leaves behind.
\<close>

section \<open>The record of descriptors\<close>

datatype fd_event = FdOpen i32 | FdClose i32

definition on_state :: "('w \<Rightarrow> 'r \<times> 'w) \<Rightarrow> 'w \<times> 't \<Rightarrow> 'r \<times> 'w \<times> 't" where
  "on_state f wt = (case f (fst wt) of (r, w') \<Rightarrow> (r, w', snd wt))"

primrec opened :: "fd_event list \<Rightarrow> i32 multiset" where
  "opened [] = {#}"
| "opened (e # es) = (case e of FdOpen fd \<Rightarrow> {#fd#} | FdClose _ \<Rightarrow> {#}) + opened es"

primrec closed :: "fd_event list \<Rightarrow> i32 multiset" where
  "closed [] = {#}"
| "closed (e # es) = (case e of FdOpen _ \<Rightarrow> {#} | FdClose fd \<Rightarrow> {#fd#}) + closed es"

lemma opened_append [simp]: "opened (es @ fs) = opened es + opened fs"
  by (induction es) (auto simp: add.assoc)

lemma closed_append [simp]: "closed (es @ fs) = closed es + closed fs"
  by (induction es) (auto simp: add.assoc)

text \<open>
  The contract of an operation that makes a handle owning a descriptor: on success the record
  grows by the opening of that descriptor, on failure by nothing, or by an opening and the
  closing of the same descriptor. The record does not change what the operation does.
\<close>

definition owns_only :: "fd_event list \<Rightarrow> fd_event list \<Rightarrow> ('e + i32) \<Rightarrow> bool" where
  "owns_only t t' r \<longleftrightarrow>
     (case r of
        Inr fd \<Rightarrow> t' = t @ [FdOpen fd]
      | Inl _ \<Rightarrow> t' = t \<or> (\<exists>fd. t' = t @ [FdOpen fd, FdClose fd]))"

locale fd_constructor =
  fixes make :: "'k \<Rightarrow> 'a \<Rightarrow> 'w \<Rightarrow> 'h result \<times> 'w"
    and make_traced :: "'k \<Rightarrow> 'a \<Rightarrow> 'w \<times> fd_event list \<Rightarrow> 'h result \<times> 'w \<times> fd_event list"
    and drop_traced :: "'k \<Rightarrow> 'h \<Rightarrow> 'w \<times> fd_event list \<Rightarrow> 'w \<times> fd_event list"
    and fd_of :: "'h \<Rightarrow> i32"
  assumes make_same: "make_traced k a (w, t) = (r, w', t') \<Longrightarrow> make k a w = (r, w')"
    and make_owns: "make_traced k a (w, t) = (r, w', t') \<Longrightarrow> owns_only t t' (map_sum id fd_of r)"
    and drop_closes: "snd (drop_traced k h (w, t)) = t @ [FdClose (fd_of h)]"
begin

text \<open>A handle made and dropped at the end of its scope leaves every descriptor closed.\<close>

lemma scope_balanced:
  assumes "make_traced k a (w, t) = (r, w', t')"
  shows "\<exists>es. snd (case r of Inl _ \<Rightarrow> (w', t') | Inr h \<Rightarrow> drop_traced k h (w', t')) = t @ es \<and>
    opened es = closed es \<and> length es \<le> 2"
proof (cases r)
  case (Inl e)
  with make_owns [OF assms] show ?thesis
    by (auto simp: owns_only_def intro: exI [of _ "[]"])
next
  case (Inr h)
  with make_owns [OF assms] have "t' = t @ [FdOpen (fd_of h)]" by (simp add: owns_only_def)
  with Inr drop_closes [of k h w' t'] show ?thesis
    by (intro exI [of _ "[FdOpen (fd_of h), FdClose (fd_of h)]"]) simp
qed

end

end
