(* ===== verification/Net.thy ===== *)
theory Net
  imports Streams Fd_Ownership
begin

unbundle bit_operations_syntax

text \<open>
  \<^verbatim>\<open>crates/ps5/src/net.rs\<close>: TCP and UDP sockets over the BSD socket calls. The calls, the
  layout constants and the numeric flags come from the generated bindings, so they are the
  fields of the parameter record \<open>net_sys\<close>.
\<close>

section \<open>Addresses\<close>

type_synonym ipv4_addr = "u8 \<times> u8 \<times> u8 \<times> u8"   \<comment> \<open>the octets of \<^verbatim>\<open>core::net::Ipv4Addr\<close>\<close>

record socket_addr_v4 =
  v4_ip :: ipv4_addr
  v4_port :: u16

record socket_addr_v6 =
  v6_segments :: "u16 list"
  v6_port :: u16
  v6_flowinfo :: u32
  v6_scope_id :: u32

datatype socket_addr = V4 socket_addr_v4 | V6 socket_addr_v6

record sockaddr_in =
  sin_len :: u8
  sin_family :: u8
  sin_port :: u16
  sin_s_addr :: u32
  sin_zero :: "u8 list"

definition zeroed_sockaddr_in :: sockaddr_in where
  "zeroed_sockaddr_in =
     \<lparr>sin_len = 0, sin_family = 0, sin_port = 0, sin_s_addr = 0, sin_zero = replicate 8 0\<rparr>"

type_synonym ptr = "64 word"   \<comment> \<open>an address; 0 is null\<close>

record addrinfo =
  ai_family :: i32
  ai_addr :: ptr
  ai_next :: ptr

record addrinfo_hints =
  hints_family :: i32
  hints_socktype :: i32

section \<open>The system parameters of the socket code\<close>

text \<open>
  A call takes its arguments and the system state and returns its value and the next state.
  A call that fills a buffer is given the buffer's length and returns the bytes it stored.
\<close>

record 'w net_sys = "'w sys_core" +
  net_socket :: "i32 \<Rightarrow> i32 \<Rightarrow> i32 \<Rightarrow> 'w \<Rightarrow> i32 \<times> 'w"
  net_close :: "i32 \<Rightarrow> 'w \<Rightarrow> i32 \<times> 'w"
  net_fcntl :: "i32 \<Rightarrow> i32 \<Rightarrow> i32 option \<Rightarrow> 'w \<Rightarrow> i32 \<times> 'w"
  net_setsockopt :: "i32 \<Rightarrow> i32 \<Rightarrow> i32 \<Rightarrow> i32 \<Rightarrow> u32 \<Rightarrow> 'w \<Rightarrow> i32 \<times> 'w"
  net_recv :: "i32 \<Rightarrow> nat \<Rightarrow> i32 \<Rightarrow> 'w \<Rightarrow> (isize \<times> u8 list) \<times> 'w"
  net_send :: "i32 \<Rightarrow> u8 list \<Rightarrow> i32 \<Rightarrow> 'w \<Rightarrow> isize \<times> 'w"
  net_connect :: "i32 \<Rightarrow> sockaddr_in \<Rightarrow> u32 \<Rightarrow> 'w \<Rightarrow> i32 \<times> 'w"
  net_bind :: "i32 \<Rightarrow> sockaddr_in \<Rightarrow> u32 \<Rightarrow> 'w \<Rightarrow> i32 \<times> 'w"
  net_listen :: "i32 \<Rightarrow> i32 \<Rightarrow> 'w \<Rightarrow> i32 \<times> 'w"
  net_accept :: "i32 \<Rightarrow> sockaddr_in \<Rightarrow> u32 \<Rightarrow> 'w \<Rightarrow> (i32 \<times> sockaddr_in) \<times> 'w"
  net_shutdown :: "i32 \<Rightarrow> i32 \<Rightarrow> 'w \<Rightarrow> i32 \<times> 'w"
  net_sendto :: "i32 \<Rightarrow> u8 list \<Rightarrow> i32 \<Rightarrow> sockaddr_in \<Rightarrow> u32 \<Rightarrow> 'w \<Rightarrow> isize \<times> 'w"
  net_recvfrom :: "i32 \<Rightarrow> nat \<Rightarrow> i32 \<Rightarrow> sockaddr_in \<Rightarrow> u32 \<Rightarrow> 'w \<Rightarrow>
    (isize \<times> u8 list \<times> sockaddr_in) \<times> 'w"
  net_getaddrinfo :: "string \<Rightarrow> string \<Rightarrow> addrinfo_hints \<Rightarrow> 'w \<Rightarrow> (i32 \<times> ptr) \<times> 'w"
  net_freeaddrinfo :: "ptr \<Rightarrow> 'w \<Rightarrow> 'w"
  net_addrinfo_at :: "ptr \<Rightarrow> 'w \<Rightarrow> addrinfo"       \<comment> \<open>what a pointer points to\<close>
  net_sockaddr_at :: "ptr \<Rightarrow> 'w \<Rightarrow> sockaddr_in"
  sizeof_sockaddr_in :: u64
  AF_INET :: u32
  SOCK_STREAM :: u32
  SOCK_DGRAM :: u32
  F_GETFL :: u32
  F_SETFL :: u32
  O_NONBLOCK :: u32
  IPPROTO_TCP :: u32
  TCP_NODELAY :: u32
  SOL_SOCKET :: u32
  SO_REUSEADDR :: u32
  SHUT_RD :: u32
  SHUT_WR :: u32
  SHUT_RDWR :: u32

section \<open>Address helpers\<close>

text \<open>\<^verbatim>\<open>to_be\<close> and \<^verbatim>\<open>from_be\<close> swap the bytes on the little-endian target.\<close>

definition swap16 :: "u16 \<Rightarrow> u16" where
  "swap16 w = push_bit 8 w OR drop_bit 8 w"

definition swap32 :: "u32 \<Rightarrow> u32" where
  "swap32 w =
     push_bit 24 (take_bit 8 w) OR push_bit 16 (take_bit 8 (drop_bit 8 w)) OR
     push_bit 8 (take_bit 8 (drop_bit 16 w)) OR take_bit 8 (drop_bit 24 w)"

text \<open>\<^verbatim>\<open>u32::from(Ipv4Addr)\<close> and \<^verbatim>\<open>Ipv4Addr::from(u32)\<close>.\<close>

fun u32_of_ipv4 :: "ipv4_addr \<Rightarrow> u32" where
  "u32_of_ipv4 (a, b, c, d) =
     push_bit 24 (ucast a) OR push_bit 16 (ucast b) OR push_bit 8 (ucast c) OR ucast d"

definition ipv4_of_u32 :: "u32 \<Rightarrow> ipv4_addr" where
  "ipv4_of_u32 w =
     (ucast (drop_bit 24 w), ucast (drop_bit 16 w), ucast (drop_bit 8 w), ucast w)"

definition require_v4 :: "socket_addr \<Rightarrow> socket_addr_v4 result" where
  "require_v4 addr =
     (case addr of
        V4 v4 \<Rightarrow> Inr v4
      | V6 _ \<Rightarrow> Inl (InvalidInput ''IPv6 is not yet supported''))"

definition to_sockaddr_in :: "('w, 'x) net_sys_scheme \<Rightarrow> socket_addr_v4 \<Rightarrow> sockaddr_in" where
  "to_sockaddr_in K addr =
     zeroed_sockaddr_in
       \<lparr>sin_len := ucast (sizeof_sockaddr_in K),
        sin_family := ucast (AF_INET K),
        sin_port := swap16 (v4_port addr),
        sin_s_addr := swap32 (u32_of_ipv4 (v4_ip addr))\<rparr>"

definition from_sockaddr_in :: "sockaddr_in \<Rightarrow> socket_addr_v4" where
  "from_sockaddr_in sa =
     \<lparr>v4_ip = ipv4_of_u32 (swap32 (sin_s_addr sa)), v4_port = swap16 (sin_port sa)\<rparr>"

definition SOCKADDR_IN_LEN :: "('w, 'x) net_sys_scheme \<Rightarrow> u32" where
  "SOCKADDR_IN_LEN K = ucast (sizeof_sockaddr_in K)"

lemma swap16_swap16 [simp]: "swap16 (swap16 w) = w"
  by (rule bit_word_eqI) (auto simp: swap16_def bit_simps)

lemma bit_swap32:
  "bit (swap32 w) n \<longleftrightarrow> n < 32 \<and>
     bit w (if n < 8 then 24 + n else if n < 16 then 8 + n else if n < 24 then n - 8 else n - 24)"
  by (auto simp: swap32_def bit_simps dest: bit_imp_le_length)

lemma swap32_swap32 [simp]: "swap32 (swap32 w) = w"
proof (rule bit_word_eqI)
  fix n assume "n < LENGTH(32)"
  then have "n < 32" by simp
  then consider "n < 8" | k where "n = 8 + k" "k < 8" | k where "n = 16 + k" "k < 8"
    | k where "n = 24 + k" "k < 8"
    by atomize_elim presburger
  then show "bit (swap32 (swap32 w)) n = bit w n"
    by cases (simp_all add: bit_swap32)
qed

lemma bit_u8_high: "8 \<le> k \<Longrightarrow> \<not> bit (a :: u8) (k + n)"
  by (auto dest: bit_imp_le_length)

lemma ipv4_of_u32_of_ipv4 [simp]: "ipv4_of_u32 (u32_of_ipv4 ip) = ip"
  by (cases ip)
     (auto simp: ipv4_of_u32_def bit_simps bit_u8_high intro!: bit_word_eqI)

section \<open>Descriptor helpers\<close>

definition new_socket :: "('w, 'x) net_sys_scheme \<Rightarrow> i32 \<Rightarrow> 'w \<Rightarrow> i32 result \<times> 'w" where
  "new_socket K ty w = cvt_i32 K (net_socket K (AF_INET K) ty 0 w)"

definition close_fd :: "('w, 'x) net_sys_scheme \<Rightarrow> i32 \<Rightarrow> 'w \<Rightarrow> 'w" where
  "close_fd K fd w = snd (net_close K fd w)"

definition set_nonblocking_fd ::
  "('w, 'x) net_sys_scheme \<Rightarrow> i32 \<Rightarrow> bool \<Rightarrow> 'w \<Rightarrow> unit result \<times> 'w" where
  "set_nonblocking_fd K fd nonblocking w =
     and_then (cvt_i32 K (net_fcntl K fd (F_GETFL K) None w)) (\<lambda>flags w1.
       let new = (if nonblocking then flags OR O_NONBLOCK K else flags AND NOT (O_NONBLOCK K)) in
       and_then (cvt_i32 K (net_fcntl K fd (F_SETFL K) (Some new) w1)) (\<lambda>_ w2.
         (Inr (), w2)))"

definition setsockopt_int ::
  "('w, 'x) net_sys_scheme \<Rightarrow> i32 \<Rightarrow> i32 \<Rightarrow> i32 \<Rightarrow> i32 \<Rightarrow> 'w \<Rightarrow> unit result \<times> 'w" where
  "setsockopt_int K fd level name val w =
     and_then (cvt_i32 K (net_setsockopt K fd level name val 4 w)) (\<lambda>_ w1. (Inr (), w1))"

definition recv_fd ::
  "('w, 'x) net_sys_scheme \<Rightarrow> i32 \<Rightarrow> u8 list \<Rightarrow> 'w \<Rightarrow> usize result \<times> u8 list \<times> 'w" where
  "recv_fd K fd buf w =
     (case net_recv K fd (length buf) 0 w of
        ((ret, stored), w1) \<Rightarrow>
          (case cvt_ssize K (ret, w1) of (r, w2) \<Rightarrow> (r, overwrite buf stored, w2)))"

definition send_fd ::
  "('w, 'x) net_sys_scheme \<Rightarrow> i32 \<Rightarrow> u8 list \<Rightarrow> 'w \<Rightarrow> usize result \<times> 'w" where
  "send_fd K fd buf w = cvt_ssize K (net_send K fd buf 0 w)"

section \<open>TcpStream\<close>

record tcp_stream =
  stream_fd :: i32

datatype shutdown_how = ShutRead | ShutWrite | ShutBoth

definition drop_tcp_stream :: "('w, 'x) net_sys_scheme \<Rightarrow> tcp_stream \<Rightarrow> 'w \<Rightarrow> 'w" where
  "drop_tcp_stream K s w = close_fd K (stream_fd s) w"

definition tcp_connect ::
  "('w, 'x) net_sys_scheme \<Rightarrow> socket_addr \<Rightarrow> 'w \<Rightarrow> tcp_stream result \<times> 'w" where
  "tcp_connect K addr w =
     and_then (require_v4 addr, w) (\<lambda>v4 w.
       let sa = to_sockaddr_in K v4 in
       and_then (new_socket K (SOCK_STREAM K) w) (\<lambda>fd w1.
         let stream = \<lparr>stream_fd = fd\<rparr> in
         then_or_drop (drop_tcp_stream K stream)
           (cvt_i32 K (net_connect K (stream_fd stream) sa (SOCKADDR_IN_LEN K) w1)) (\<lambda>_ w2.
           (Inr stream, w2))))"

definition tcp_read ::
  "('w, 'x) net_sys_scheme \<Rightarrow> tcp_stream \<Rightarrow> u8 list \<Rightarrow> 'w \<Rightarrow> usize result \<times> u8 list \<times> 'w" where
  "tcp_read K s buf w = recv_fd K (stream_fd s) buf w"

definition tcp_write ::
  "('w, 'x) net_sys_scheme \<Rightarrow> tcp_stream \<Rightarrow> u8 list \<Rightarrow> 'w \<Rightarrow> usize result \<times> 'w" where
  "tcp_write K s buf w = send_fd K (stream_fd s) buf w"

partial_function (option) tcp_write_all ::
  "('w, 'x) net_sys_scheme \<Rightarrow> tcp_stream \<Rightarrow> u8 list \<Rightarrow> 'w \<Rightarrow> ((failure + unit) \<times> 'w) option" where
  "tcp_write_all K s buf w =
     (if buf = [] then Some (Inr (), w)
      else case tcp_write K s buf w of
        (Inr n, w1) \<Rightarrow>
          if n = 0 then Some (Inl (Fail (last_os K w1)), w1)
          else (case slice_from (unat n) buf of
                  None \<Rightarrow> Some (Inl Panic, w1)
                | Some rest \<Rightarrow> tcp_write_all K s rest w1)
      | (Inl e, w1) \<Rightarrow>
          if is_interrupt K e then tcp_write_all K s buf w1 else Some (Inl (Fail e), w1))"

definition tcp_set_nodelay ::
  "('w, 'x) net_sys_scheme \<Rightarrow> tcp_stream \<Rightarrow> bool \<Rightarrow> 'w \<Rightarrow> unit result \<times> 'w" where
  "tcp_set_nodelay K s nodelay w =
     setsockopt_int K (stream_fd s) (IPPROTO_TCP K) (TCP_NODELAY K) (of_bool nodelay) w"

definition tcp_set_nonblocking ::
  "('w, 'x) net_sys_scheme \<Rightarrow> tcp_stream \<Rightarrow> bool \<Rightarrow> 'w \<Rightarrow> unit result \<times> 'w" where
  "tcp_set_nonblocking K s nonblocking w = set_nonblocking_fd K (stream_fd s) nonblocking w"

definition tcp_shutdown ::
  "('w, 'x) net_sys_scheme \<Rightarrow> tcp_stream \<Rightarrow> shutdown_how \<Rightarrow> 'w \<Rightarrow> unit result \<times> 'w" where
  "tcp_shutdown K s how w =
     (let how' = (case how of
                    ShutRead \<Rightarrow> SHUT_RD K | ShutWrite \<Rightarrow> SHUT_WR K | ShutBoth \<Rightarrow> SHUT_RDWR K)
      in and_then (cvt_i32 K (net_shutdown K (stream_fd s) how' w)) (\<lambda>_ w1. (Inr (), w1)))"

text \<open>\<^verbatim>\<open>into_raw_fd\<close> forgets the stream, so its destructor never runs.\<close>

definition tcp_as_raw_fd :: "tcp_stream \<Rightarrow> i32" where
  "tcp_as_raw_fd s = stream_fd s"

definition tcp_into_raw_fd :: "tcp_stream \<Rightarrow> i32" where
  "tcp_into_raw_fd s = stream_fd s"

definition tcp_from_raw_fd :: "i32 \<Rightarrow> tcp_stream" where
  "tcp_from_raw_fd fd = \<lparr>stream_fd = fd\<rparr>"

section \<open>TcpListener\<close>

record tcp_listener =
  listener_fd :: i32

definition listener_as_raw_fd :: "tcp_listener \<Rightarrow> i32" where
  "listener_as_raw_fd l = listener_fd l"

definition drop_tcp_listener :: "('w, 'x) net_sys_scheme \<Rightarrow> tcp_listener \<Rightarrow> 'w \<Rightarrow> 'w" where
  "drop_tcp_listener K l w = close_fd K (listener_fd l) w"

definition tcp_bind ::
  "('w, 'x) net_sys_scheme \<Rightarrow> socket_addr \<Rightarrow> 'w \<Rightarrow> tcp_listener result \<times> 'w" where
  "tcp_bind K addr w =
     and_then (require_v4 addr, w) (\<lambda>v4 w.
       let sa = to_sockaddr_in K v4 in
       and_then (new_socket K (SOCK_STREAM K) w) (\<lambda>fd w1.
         let listener = \<lparr>listener_fd = fd\<rparr>; drop' = drop_tcp_listener K listener in
         then_or_drop drop'
           (setsockopt_int K (listener_fd listener) (SOL_SOCKET K) (SO_REUSEADDR K) 1 w1) (\<lambda>_ w2.
         then_or_drop drop'
           (cvt_i32 K (net_bind K (listener_fd listener) sa (SOCKADDR_IN_LEN K) w2)) (\<lambda>_ w3.
         then_or_drop drop'
           (cvt_i32 K (net_listen K (listener_fd listener) 128 w3)) (\<lambda>_ w4.
           (Inr listener, w4))))))"

definition tcp_accept ::
  "('w, 'x) net_sys_scheme \<Rightarrow> tcp_listener \<Rightarrow> 'w \<Rightarrow> (tcp_stream \<times> socket_addr) result \<times> 'w" where
  "tcp_accept K l w =
     (case net_accept K (listener_fd l) zeroed_sockaddr_in (SOCKADDR_IN_LEN K) w of
        ((ret, sa), w1) \<Rightarrow>
          and_then (cvt_i32 K (ret, w1)) (\<lambda>fd w2.
            let peer = V4 (from_sockaddr_in sa) in (Inr (\<lparr>stream_fd = fd\<rparr>, peer), w2)))"

text \<open>\<^verbatim>\<open>Incoming::next\<close>: it never ends, and each item is the stream of one \<^verbatim>\<open>accept\<close>.\<close>

definition incoming_next ::
  "('w, 'x) net_sys_scheme \<Rightarrow> tcp_listener \<Rightarrow> 'w \<Rightarrow> tcp_stream result option \<times> 'w" where
  "incoming_next K l w =
     (case tcp_accept K l w of
        (Inl e, w1) \<Rightarrow> (Some (Inl e), w1)
      | (Inr (stream, _), w1) \<Rightarrow> (Some (Inr stream), w1))"

definition listener_set_nonblocking ::
  "('w, 'x) net_sys_scheme \<Rightarrow> tcp_listener \<Rightarrow> bool \<Rightarrow> 'w \<Rightarrow> unit result \<times> 'w" where
  "listener_set_nonblocking K l nonblocking w =
     set_nonblocking_fd K (listener_fd l) nonblocking w"

section \<open>UdpSocket\<close>

record udp_socket =
  udp_fd :: i32

definition udp_as_raw_fd :: "udp_socket \<Rightarrow> i32" where
  "udp_as_raw_fd s = udp_fd s"

definition drop_udp_socket :: "('w, 'x) net_sys_scheme \<Rightarrow> udp_socket \<Rightarrow> 'w \<Rightarrow> 'w" where
  "drop_udp_socket K s w = close_fd K (udp_fd s) w"

definition udp_bind ::
  "('w, 'x) net_sys_scheme \<Rightarrow> socket_addr \<Rightarrow> 'w \<Rightarrow> udp_socket result \<times> 'w" where
  "udp_bind K addr w =
     and_then (require_v4 addr, w) (\<lambda>v4 w.
       let sa = to_sockaddr_in K v4 in
       and_then (new_socket K (SOCK_DGRAM K) w) (\<lambda>fd w1.
         let sock = \<lparr>udp_fd = fd\<rparr> in
         then_or_drop (drop_udp_socket K sock)
           (cvt_i32 K (net_bind K (udp_fd sock) sa (SOCKADDR_IN_LEN K) w1)) (\<lambda>_ w2.
           (Inr sock, w2))))"

definition udp_send_to ::
  "('w, 'x) net_sys_scheme \<Rightarrow> udp_socket \<Rightarrow> u8 list \<Rightarrow> socket_addr \<Rightarrow> 'w \<Rightarrow>
   usize result \<times> 'w" where
  "udp_send_to K s buf addr w =
     and_then (require_v4 addr, w) (\<lambda>v4 w.
       let sa = to_sockaddr_in K v4 in
       cvt_ssize K (net_sendto K (udp_fd s) buf 0 sa (SOCKADDR_IN_LEN K) w))"

definition udp_recv_from ::
  "('w, 'x) net_sys_scheme \<Rightarrow> udp_socket \<Rightarrow> u8 list \<Rightarrow> 'w \<Rightarrow>
   (usize \<times> socket_addr) result \<times> u8 list \<times> 'w" where
  "udp_recv_from K s buf w =
     (case net_recvfrom K (udp_fd s) (length buf) 0 zeroed_sockaddr_in (SOCKADDR_IN_LEN K) w of
        ((ret, stored, sa), w1) \<Rightarrow>
          (case cvt_ssize K (ret, w1) of
             (Inl e, w2) \<Rightarrow> (Inl e, overwrite buf stored, w2)
           | (Inr n, w2) \<Rightarrow> (Inr (n, V4 (from_sockaddr_in sa)), overwrite buf stored, w2)))"

definition udp_connect ::
  "('w, 'x) net_sys_scheme \<Rightarrow> udp_socket \<Rightarrow> socket_addr \<Rightarrow> 'w \<Rightarrow> unit result \<times> 'w" where
  "udp_connect K s addr w =
     and_then (require_v4 addr, w) (\<lambda>v4 w.
       let sa = to_sockaddr_in K v4 in
       and_then (cvt_i32 K (net_connect K (udp_fd s) sa (SOCKADDR_IN_LEN K) w)) (\<lambda>_ w1.
         (Inr (), w1)))"

definition udp_send ::
  "('w, 'x) net_sys_scheme \<Rightarrow> udp_socket \<Rightarrow> u8 list \<Rightarrow> 'w \<Rightarrow> usize result \<times> 'w" where
  "udp_send K s buf w = send_fd K (udp_fd s) buf w"

definition udp_recv ::
  "('w, 'x) net_sys_scheme \<Rightarrow> udp_socket \<Rightarrow> u8 list \<Rightarrow> 'w \<Rightarrow> usize result \<times> u8 list \<times> 'w" where
  "udp_recv K s buf w = recv_fd K (udp_fd s) buf w"

definition udp_set_nonblocking ::
  "('w, 'x) net_sys_scheme \<Rightarrow> udp_socket \<Rightarrow> bool \<Rightarrow> 'w \<Rightarrow> unit result \<times> 'w" where
  "udp_set_nonblocking K s nonblocking w = set_nonblocking_fd K (udp_fd s) nonblocking w"

section \<open>Name resolution\<close>

text \<open>
  The walk over the linked list of results follows raw pointers, so on a cyclic list it would
  not end (\<open>None\<close>).
\<close>

partial_function (option) addrinfo_walk ::
  "('w, 'x) net_sys_scheme \<Rightarrow> ptr \<Rightarrow> socket_addr list \<Rightarrow> 'w \<Rightarrow> socket_addr list option" where
  "addrinfo_walk K cur out w =
     (if cur = 0 then Some out
      else
        (let ai = net_addrinfo_at K cur w in
         addrinfo_walk K (ai_next ai)
           (if ai_family ai = AF_INET K \<and> ai_addr ai \<noteq> 0
            then out @ [V4 (from_sockaddr_in (net_sockaddr_at K (ai_addr ai) w))] else out) w))"

definition lookup_host ::
  "('w, 'x) net_sys_scheme \<Rightarrow> string \<Rightarrow> u16 \<Rightarrow> 'w \<Rightarrow> (socket_addr list result \<times> 'w) option" where
  "lookup_host K host port w =
     (case cstr host of
        Inl e \<Rightarrow> Some (Inl e, w)
      | Inr chost \<Rightarrow>
        (case cstr (dec (unat port)) of
           Inl e \<Rightarrow> Some (Inl e, w)
         | Inr service \<Rightarrow>
             let hints = \<lparr>hints_family = AF_INET K, hints_socktype = SOCK_STREAM K\<rparr> in
             (case net_getaddrinfo K chost service hints w of
                ((rc, res), w1) \<Rightarrow>
                  if rc \<noteq> 0 then Some (Inl (error_gai rc), w1)
                  else (case addrinfo_walk K res [] w1 of
                          None \<Rightarrow> None
                        | Some out \<Rightarrow> Some (Inr out, net_freeaddrinfo K res w1)))))"

section \<open>What the socket code expects of the system\<close>

text \<open>
  The documented behaviour of \<^verbatim>\<open>send\<close> and \<^verbatim>\<open>recv\<close> on one stream, told through an
  observation: a successful \<^verbatim>\<open>send\<close> takes a prefix of the buffer, a successful \<^verbatim>\<open>recv\<close>
  stores the next bytes of the stream and at most as many as fit, and stores none only at the
  end of the stream; a failed call moves nothing.
\<close>

definition send_contract ::
  "('w, 'x) net_sys_scheme \<Rightarrow> tcp_stream \<Rightarrow> ('w \<Rightarrow> u8 list) \<Rightarrow> bool" where
  "send_contract K s log \<longleftrightarrow>
     (\<forall>buf w ret w'. net_send K (stream_fd s) buf 0 w = (ret, w') \<longrightarrow>
        (if ret = -1 then log w' = log w
         else unat ret \<le> length buf \<and> log w' = log w @ take (unat ret) buf))"

definition recv_contract ::
  "('w, 'x) net_sys_scheme \<Rightarrow> tcp_stream \<Rightarrow> ('w \<Rightarrow> u8 list) \<Rightarrow> bool" where
  "recv_contract K s pend \<longleftrightarrow>
     (\<forall>len w ret stored w'. net_recv K (stream_fd s) len 0 w = ((ret, stored), w') \<longrightarrow>
        (if ret = -1 then pend w' = pend w
         else unat ret = length stored \<and> length stored \<le> len \<and> pend w = stored @ pend w' \<and>
              (stored = [] \<longrightarrow> len = 0 \<or> pend w = [])))"

lemma tcp_write_send:
  "tcp_write K s buf w = (Inr n, w') \<longleftrightarrow> net_send K (stream_fd s) buf 0 w = (n, w') \<and> n \<noteq> -1"
  "tcp_write K s buf w = (Inl e, w') \<longleftrightarrow>
     net_send K (stream_fd s) buf 0 w = (-1, w') \<and> e = last_os K w'"
  by (auto simp: tcp_write_def send_fd_def cvt_ssize_def split: prod.splits)

interpretation tcp_sink: byte_sink tcp_write send_contract
proof unfold_locales
  fix k :: "('w, 'x) net_sys_scheme" and h log buf w n e w'
  assume c: "send_contract k h log"
  show "unat n \<le> length buf \<and> log w' = log w @ take (unat n) buf"
    if "tcp_write k h buf w = (Inr n, w')"
    using that c by (fastforce simp: send_contract_def tcp_write_send)
  show "log w' = log w" if "tcp_write k h buf w = (Inl e, w')"
    using that c by (fastforce simp: send_contract_def tcp_write_send)
qed

interpretation tcp_source: byte_source tcp_read recv_contract
proof unfold_locales
  fix k :: "('w, 'x) net_sys_scheme" and h buf w r buf' w'
  show "length buf' = length buf" if "tcp_read k h buf w = (r, buf', w')"
    using that by (auto simp: tcp_read_def recv_fd_def split: prod.splits)
  fix pend n
  assume c: "recv_contract k h pend"
  show "unat n \<le> length buf \<and> pend w = take (unat n) buf' @ pend w'"
    if "tcp_read k h buf w = (Inr n, buf', w')"
  proof -
    from that obtain stored where
      "net_recv k (stream_fd h) (length buf) 0 w = ((n, stored), w')" "n \<noteq> -1"
      "buf' = overwrite buf stored"
      by (auto simp: tcp_read_def recv_fd_def cvt_ssize_def split: prod.splits if_splits)
    with c show ?thesis by (fastforce simp: recv_contract_def)
  qed
  show "pend w = []" if "tcp_read k h buf w = (Inr 0, buf', w')" "buf \<noteq> []"
    using that c
    by (fastforce simp: recv_contract_def tcp_read_def recv_fd_def cvt_ssize_def
        split: prod.splits if_splits)
  show "pend w' = pend w" if "tcp_read k h buf w = (Inl e, buf', w')" for e
    using that c
    by (fastforce simp: recv_contract_def tcp_read_def recv_fd_def cvt_ssize_def
        split: prod.splits if_splits)
qed

section \<open>Recording descriptors\<close>

text \<open>
  \<open>traced K\<close> is \<open>K\<close> with a record of the descriptors handed out and closed, kept beside the
  state of \<open>K\<close>. It makes ownership observable: whatever \<open>K\<close> does, the record shows what the
  wrapper opened and closed. \<open>on_state\<close> lifts a call that touches no descriptor's life.
\<close>

definition traced :: "('w, 'x) net_sys_scheme \<Rightarrow> ('w \<times> fd_event list) net_sys" where
  "traced K =
     \<lparr>sys_errno = (\<lambda>wt. sys_errno K (fst wt)),
      sys_set_errno = (\<lambda>c wt. (sys_set_errno K c (fst wt), snd wt)),
      sys_strerror = sys_strerror K,
      EINTR = EINTR K, EAGAIN = EAGAIN K, EWOULDBLOCK = EWOULDBLOCK K, EINVAL = EINVAL K,
      net_socket = (\<lambda>d t p wt. case net_socket K d t p (fst wt) of (r, w') \<Rightarrow>
        (r, w', snd wt @ (if r = -1 then [] else [FdOpen r]))),
      net_close = (\<lambda>fd wt. case net_close K fd (fst wt) of (r, w') \<Rightarrow>
        (r, w', snd wt @ [FdClose fd])),
      net_fcntl = (\<lambda>fd c a. on_state (net_fcntl K fd c a)),
      net_setsockopt = (\<lambda>fd l n v len. on_state (net_setsockopt K fd l n v len)),
      net_recv = (\<lambda>fd len fl. on_state (net_recv K fd len fl)),
      net_send = (\<lambda>fd buf fl. on_state (net_send K fd buf fl)),
      net_connect = (\<lambda>fd sa len. on_state (net_connect K fd sa len)),
      net_bind = (\<lambda>fd sa len. on_state (net_bind K fd sa len)),
      net_listen = (\<lambda>fd n. on_state (net_listen K fd n)),
      net_accept = (\<lambda>fd sa len wt. case net_accept K fd sa len (fst wt) of ((r, sa'), w') \<Rightarrow>
        ((r, sa'), w', snd wt @ (if r = -1 then [] else [FdOpen r]))),
      net_shutdown = (\<lambda>fd how. on_state (net_shutdown K fd how)),
      net_sendto = (\<lambda>fd buf fl sa len. on_state (net_sendto K fd buf fl sa len)),
      net_recvfrom = (\<lambda>fd n fl sa len. on_state (net_recvfrom K fd n fl sa len)),
      net_getaddrinfo = (\<lambda>h s hints. on_state (net_getaddrinfo K h s hints)),
      net_freeaddrinfo = (\<lambda>p wt. (net_freeaddrinfo K p (fst wt), snd wt)),
      net_addrinfo_at = (\<lambda>p wt. net_addrinfo_at K p (fst wt)),
      net_sockaddr_at = (\<lambda>p wt. net_sockaddr_at K p (fst wt)),
      sizeof_sockaddr_in = sizeof_sockaddr_in K, AF_INET = AF_INET K,
      SOCK_STREAM = SOCK_STREAM K, SOCK_DGRAM = SOCK_DGRAM K,
      F_GETFL = F_GETFL K, F_SETFL = F_SETFL K, O_NONBLOCK = O_NONBLOCK K,
      IPPROTO_TCP = IPPROTO_TCP K, TCP_NODELAY = TCP_NODELAY K,
      SOL_SOCKET = SOL_SOCKET K, SO_REUSEADDR = SO_REUSEADDR K,
      SHUT_RD = SHUT_RD K, SHUT_WR = SHUT_WR K, SHUT_RDWR = SHUT_RDWR K\<rparr>"

lemma traced_consts [trace_simps]:
  "AF_INET (traced K) = AF_INET K" "SOCK_STREAM (traced K) = SOCK_STREAM K"
  "SOCK_DGRAM (traced K) = SOCK_DGRAM K" "SOL_SOCKET (traced K) = SOL_SOCKET K"
  "SO_REUSEADDR (traced K) = SO_REUSEADDR K" "EINTR (traced K) = EINTR K"
  "SHUT_RD (traced K) = SHUT_RD K" "SHUT_WR (traced K) = SHUT_WR K"
  "SHUT_RDWR (traced K) = SHUT_RDWR K"
  "SOCKADDR_IN_LEN (traced K) = SOCKADDR_IN_LEN K"
  "to_sockaddr_in (traced K) a = to_sockaddr_in K a"
  "last_os (traced K) (w, t) = last_os K w"
  "is_interrupt (traced K) e = is_interrupt K e"
  by (simp_all add: traced_def SOCKADDR_IN_LEN_def to_sockaddr_in_def last_os_def errno_last_def
      is_interrupt_def interrupted_def split: option.splits)

lemma traced_cvt [trace_simps]:
  "cvt_i32 (traced K) (r, w, t) = (case cvt_i32 K (r, w) of (x, w') \<Rightarrow> (x, w', t))"
  "cvt_ssize (traced K) (r0, w, t) = (case cvt_ssize K (r0, w) of (x, w') \<Rightarrow> (x, w', t))"
  by (simp_all add: cvt_i32_def cvt_ssize_def traced_consts)

lemma traced_new_socket [trace_simps]:
  "new_socket (traced K) ty (w, t) =
     (case new_socket K ty w of
        (Inl e, w') \<Rightarrow> (Inl e, w', t)
      | (Inr fd, w') \<Rightarrow> (Inr fd, w', t @ [FdOpen fd]))"
  unfolding new_socket_def traced_consts
  by (simp add: traced_def cvt_i32_def last_os_def errno_last_def split: prod.splits)

lemma traced_close [trace_simps]:
  "close_fd (traced K) fd (w, t) = (close_fd K fd w, t @ [FdClose fd])"
  by (simp add: close_fd_def traced_def split: prod.splits)

lemma traced_calls [trace_simps]:
  "net_connect (traced K) fd sa len (w, t) = (case net_connect K fd sa len w of (r, w') \<Rightarrow> (r, w', t))"
  "net_bind (traced K) fd sa len (w, t) = (case net_bind K fd sa len w of (r, w') \<Rightarrow> (r, w', t))"
  "net_listen (traced K) fd n (w, t) = (case net_listen K fd n w of (r, w') \<Rightarrow> (r, w', t))"
  "net_send (traced K) fd buf fl (w, t) = (case net_send K fd buf fl w of (r, w') \<Rightarrow> (r, w', t))"
  "net_recv (traced K) fd n0 fl (w, t) = (case net_recv K fd n0 fl w of (r, w') \<Rightarrow> (r, w', t))"
  "net_shutdown (traced K) fd how (w, t) = (case net_shutdown K fd how w of (r, w') \<Rightarrow> (r, w', t))"
  "net_setsockopt (traced K) fd l n v len (w, t) =
     (case net_setsockopt K fd l n v len w of (r, w') \<Rightarrow> (r, w', t))"
  by (simp_all add: traced_def on_state_def)

lemma traced_setsockopt [trace_simps]:
  "setsockopt_int (traced K) fd l n v (w, t) =
     (case setsockopt_int K fd l n v w of (r, w') \<Rightarrow> (r, w', t))"
  by (simp add: setsockopt_int_def trace_simps cvt_i32_def split: prod.splits)

lemma traced_drops [trace_simps]:
  "drop_tcp_stream (traced K) s (w, t) = (drop_tcp_stream K s w, t @ [FdClose (stream_fd s)])"
  "drop_tcp_listener (traced K) l (w, t) = (drop_tcp_listener K l w, t @ [FdClose (listener_fd l)])"
  "drop_udp_socket (traced K) u (w, t) = (drop_udp_socket K u w, t @ [FdClose (udp_fd u)])"
  by (simp_all add: drop_tcp_stream_def drop_tcp_listener_def drop_udp_socket_def trace_simps)

lemma traced_accept [trace_simps]:
  "tcp_accept (traced K) l (w, t) =
     (case tcp_accept K l w of
        (Inl e, w') \<Rightarrow> (Inl e, w', t)
      | (Inr (s, peer), w') \<Rightarrow> (Inr (s, peer), w', t @ [FdOpen (stream_fd s)]))"
  unfolding tcp_accept_def traced_consts
  by (simp add: traced_def cvt_i32_def last_os_def errno_last_def Let_def split: prod.splits)

section \<open>Properties\<close>

text \<open>The bytes of a word in memory on the little-endian target.\<close>

definition le_bytes16 :: "u16 \<Rightarrow> u8 list" where
  "le_bytes16 w = [ucast w, ucast (drop_bit 8 w)]"

definition le_bytes32 :: "u32 \<Rightarrow> u8 list" where
  "le_bytes32 w = [ucast w, ucast (drop_bit 8 w), ucast (drop_bit 16 w), ucast (drop_bit 24 w)]"

text \<open>
  C31: the socket address built for an IPv4 address holds, as bytes in memory, the port in
  network order (high byte first) and the four octets in their order, and converting it back
  gives the same address.
\<close>

theorem sockaddr_in_network_order:
  "le_bytes16 (sin_port (to_sockaddr_in K a)) = [ucast (drop_bit 8 (v4_port a)), ucast (v4_port a)] \<and>
   (case v4_ip a of (o1, o2, o3, o4) \<Rightarrow>
      le_bytes32 (sin_s_addr (to_sockaddr_in K a)) = [o1, o2, o3, o4]) \<and>
   from_sockaddr_in (to_sockaddr_in K a) = a"
proof (intro conjI)
  show "le_bytes16 (sin_port (to_sockaddr_in K a)) = [ucast (drop_bit 8 (v4_port a)), ucast (v4_port a)]"
    by (auto simp: to_sockaddr_in_def zeroed_sockaddr_in_def le_bytes16_def swap16_def bit_simps
        intro!: bit_word_eqI dest: bit_imp_le_length)
  obtain o1 o2 o3 o4 where ip: "v4_ip a = (o1, o2, o3, o4)" by (cases "v4_ip a") auto
  have "le_bytes32 (swap32 (u32_of_ipv4 (o1, o2, o3, o4))) = [o1, o2, o3, o4]"
    by (auto simp: le_bytes32_def bit_swap32 bit_simps bit_u8_high intro!: bit_word_eqI)
  with ip show "case v4_ip a of (o1, o2, o3, o4) \<Rightarrow>
      le_bytes32 (sin_s_addr (to_sockaddr_in K a)) = [o1, o2, o3, o4]"
    by (simp add: to_sockaddr_in_def zeroed_sockaddr_in_def)
  show "from_sockaddr_in (to_sockaddr_in K a) = a"
    by (simp add: from_sockaddr_in_def to_sockaddr_in_def zeroed_sockaddr_in_def)
qed

text \<open>The write loop of a stream is the reference loop over its \<^verbatim>\<open>write\<close>.\<close>

lemma tcp_write_all_pump:
  "tcp_write_all K s buf w = pump (tcp_write K s) (last_os K) (is_interrupt K) buf w"
proof -
  let ?pump = "pump (tcp_write K s) (last_os K) (is_interrupt K) buf w"
  have "?pump = Some y" if "tcp_write_all K s buf w = Some y" for y
    by (rule tcp_write_all.raw_induct [where P = "\<lambda>K s buf w y.
          pump (tcp_write K s) (last_os K) (is_interrupt K) buf w = Some y", OF _ that])
       (subst pump.simps, auto split: if_splits prod.splits sum.splits option.splits)
  moreover have "tcp_write_all K s buf w = Some y" if "?pump = Some y" for y
  proof -
    have "tcp_write K s = tcp_write K s \<and> last_os K = last_os K \<and>
        is_interrupt K = is_interrupt K \<longrightarrow> tcp_write_all K s buf w = Some y"
      by (rule pump.raw_induct [where P = "\<lambda>wr stall retry buf w y.
            wr = tcp_write K s \<and> stall = last_os K \<and> retry = is_interrupt K \<longrightarrow>
            tcp_write_all K s buf w = Some y", OF _ that])
         (subst tcp_write_all.simps, auto split: if_splits prod.splits sum.splits option.splits)
    then show ?thesis by simp
  qed
  ultimately show ?thesis by (cases "tcp_write_all K s buf w"; cases ?pump) auto
qed

text \<open>A system all of whose calls fail, the base of the concrete systems in the witnesses.\<close>

definition inert_net :: "'w net_sys" where
  "inert_net =
     \<lparr>sys_errno = (\<lambda>_. 0), sys_set_errno = (\<lambda>_ w. w), sys_strerror = (\<lambda>_. None),
      EINTR = 4, EAGAIN = 35, EWOULDBLOCK = 35, EINVAL = 22,
      net_socket = (\<lambda>_ _ _ w. (-1, w)), net_close = (\<lambda>_ w. (-1, w)),
      net_fcntl = (\<lambda>_ _ _ w. (-1, w)), net_setsockopt = (\<lambda>_ _ _ _ _ w. (-1, w)),
      net_recv = (\<lambda>_ _ _ w. ((-1, []), w)), net_send = (\<lambda>_ _ _ w. (-1, w)),
      net_connect = (\<lambda>_ _ _ w. (-1, w)), net_bind = (\<lambda>_ _ _ w. (-1, w)),
      net_listen = (\<lambda>_ _ w. (-1, w)), net_accept = (\<lambda>_ sa _ w. ((-1, sa), w)),
      net_shutdown = (\<lambda>_ _ w. (-1, w)), net_sendto = (\<lambda>_ _ _ _ _ w. (-1, w)),
      net_recvfrom = (\<lambda>_ _ _ sa _ w. ((-1, [], sa), w)),
      net_getaddrinfo = (\<lambda>_ _ _ w. ((8, 0), w)), net_freeaddrinfo = (\<lambda>_ w. w),
      net_addrinfo_at = (\<lambda>_ _. \<lparr>ai_family = 0, ai_addr = 0, ai_next = 0\<rparr>),
      net_sockaddr_at = (\<lambda>_ _. zeroed_sockaddr_in),
      sizeof_sockaddr_in = 16, AF_INET = 2, SOCK_STREAM = 1, SOCK_DGRAM = 2,
      F_GETFL = 3, F_SETFL = 4, O_NONBLOCK = 4, IPPROTO_TCP = 6, TCP_NODELAY = 1,
      SOL_SOCKET = 0xFFFF, SO_REUSEADDR = 4, SHUT_RD = 0, SHUT_WR = 1, SHUT_RDWR = 2\<rparr>"

text \<open>A system that takes at most two bytes per \<^verbatim>\<open>send\<close> and remembers them.\<close>

definition two_byte_net :: "u8 list net_sys" where
  "two_byte_net = inert_net
     \<lparr>net_send := (\<lambda>_ buf _ w. (of_nat (min 2 (length buf)), w @ take 2 buf))\<rparr>"

lemma two_byte_send: "net_send two_byte_net fd buf fl w = (of_nat (min 2 (length buf)), w @ take 2 buf)"
  by (simp add: two_byte_net_def)

lemma of_nat_min_2: "unat (of_nat (min 2 n) :: usize) = min 2 n" "(of_nat (min 2 n) :: usize) \<noteq> -1"
proof -
  have "min 2 n = 0 \<or> min 2 n = 1 \<or> min 2 n = 2" by (cases "n < 2") auto
  then show "unat (of_nat (min 2 n) :: usize) = min 2 n" "(of_nat (min 2 n) :: usize) \<noteq> -1" by auto
qed

lemma two_byte_contract: "send_contract two_byte_net s (\<lambda>w. w)"
  by (auto simp: send_contract_def two_byte_send of_nat_min_2) (simp add: min_def)

lemma two_byte_never_fails: "net_send two_byte_net fd buf fl w \<noteq> (-1, w')"
  by (simp add: two_byte_send of_nat_min_2)

lemma two_byte_progress:
  assumes "buf \<noteq> []"
  shows "net_send two_byte_net fd buf fl w \<noteq> (0, w')"
proof
  assume "net_send two_byte_net fd buf fl w = (0, w')"
  then have "(of_nat (min 2 (length buf)) :: usize) = 0" by (simp only: two_byte_send prod.inject)
  then have "min 2 (length buf) = 0"
    using of_nat_min_2(1) [of "length buf"] by (metis unsigned_0)
  with assms show False by (simp add: min_def split: if_splits)
qed

text \<open>
  C19: whatever the socket does within its contract, when \<^verbatim>\<open>TcpStream::write_all\<close> returns it
  has not panicked, the bytes accepted are a prefix of the buffer in order, and on success
  they are the whole buffer, with no byte lost or sent twice across short writes and
  interruptions.
\<close>

theorem tcp_write_all_sends:
  assumes "send_contract K s log" and "tcp_write_all K s buf w = Some (r, w')"
  shows "r \<noteq> Inl Panic \<and>
    (\<exists>sent rest. buf = sent @ rest \<and> log w' = log w @ sent \<and> (r = Inr () \<longrightarrow> rest = []))"
  using tcp_sink.pump_log [OF assms(1) assms(2) [unfolded tcp_write_all_pump]] .

theorem tcp_write_all_sends_witness:
  "tcp_write_all two_byte_net \<lparr>stream_fd = 3\<rparr> [10, 20, 30] [] = Some (Inr (), [10, 20, 30]) \<and>
   (\<exists>sent rest. [10, 20, 30] = sent @ rest \<and> ([10, 20, 30] :: u8 list) = [] @ sent)"
proof -
  have run: "tcp_write_all two_byte_net \<lparr>stream_fd = 3\<rparr> [10, 20, 30] [] = Some (Inr (), [10, 20, 30])"
    by (simp add: tcp_write_all.simps tcp_write_def send_fd_def two_byte_send cvt_ssize_def)
  from tcp_write_all_sends [OF two_byte_contract this] show ?thesis using run by auto
qed

text \<open>
  C20: \<^verbatim>\<open>TcpStream::write_all\<close> returns as long as interruptions cannot recur for ever (a
  measure of the system state falls with each); if interruptions are the only errors and no
  \<^verbatim>\<open>send\<close> takes nothing, it returns success with the whole buffer accepted.
\<close>

theorem tcp_write_all_returns:
  assumes "send_contract K s log"
    and "\<And>buf w w'. net_send K (stream_fd s) buf 0 w = (-1, w') \<Longrightarrow> sys_errno K w' = EINTR K \<Longrightarrow>
      m w' < (m w :: nat)"
  shows "\<exists>r w'. tcp_write_all K s buf w = Some (r, w') \<and>
    ((\<forall>buf w w'. net_send K (stream_fd s) buf 0 w = (-1, w') \<longrightarrow> sys_errno K w' = EINTR K) \<and>
     (\<forall>buf w w'. buf \<noteq> [] \<longrightarrow> net_send K (stream_fd s) buf 0 w \<noteq> (0, w')) \<longrightarrow>
     r = Inr () \<and> log w' = log w @ buf)"
proof -
  have "\<exists>r w'. pump (tcp_write K s) (last_os K) (is_interrupt K) buf w = Some (r, w') \<and>
    ((\<forall>buf w e w'. tcp_write K s buf w = (Inl e, w') \<longrightarrow> is_interrupt K e) \<and>
     (\<forall>buf w w'. buf \<noteq> [] \<longrightarrow> tcp_write K s buf w \<noteq> (Inr 0, w')) \<longrightarrow> r = Inr ())"
    using assms(2)
    by (intro tcp_sink.pump_total [OF assms(1)])
       (auto simp: tcp_write_send last_os_def errno_last_def interrupted_def)
  then obtain r w' where *: "tcp_write_all K s buf w = Some (r, w')"
    "(\<forall>buf w e w'. tcp_write K s buf w = (Inl e, w') \<longrightarrow> is_interrupt K e) \<and>
     (\<forall>buf w w'. buf \<noteq> [] \<longrightarrow> tcp_write K s buf w \<noteq> (Inr 0, w')) \<longrightarrow> r = Inr ()"
    unfolding tcp_write_all_pump by blast
  moreover have "r = Inr () \<longrightarrow> log w' = log w @ buf"
    using tcp_sink.pump_log [OF assms(1)] *(1) by (fastforce simp: tcp_write_all_pump)
  ultimately show ?thesis
    by (intro exI [of _ r] exI [of _ w'])
       (auto simp: tcp_write_send last_os_def errno_last_def interrupted_def)
qed

theorem tcp_write_all_returns_witness:
  "\<exists>r w'. tcp_write_all two_byte_net \<lparr>stream_fd = 3\<rparr> [10, 20, 30] [5] = Some (r, w') \<and>
    r = Inr () \<and> w' = [5, 10, 20, 30]"
  using tcp_write_all_returns [OF two_byte_contract, of "\<lparr>stream_fd = 3\<rparr>" "\<lambda>_. 0" "[10, 20, 30]" "[5]"]
    two_byte_never_fails two_byte_progress
  by fastforce

subsection \<open>Descriptor ownership\<close>

interpretation connect_fd: fd_constructor tcp_connect "\<lambda>K. tcp_connect (traced K)"
  "\<lambda>K. drop_tcp_stream (traced K)" stream_fd
  by unfold_locales
     (auto simp: tcp_connect_def trace_simps require_v4_def owns_only_def Let_def
       then_or_drop_def and_then_def split: socket_addr.splits sum.splits prod.splits)

interpretation bind_fd: fd_constructor tcp_bind "\<lambda>K. tcp_bind (traced K)"
  "\<lambda>K. drop_tcp_listener (traced K)" listener_fd
  by unfold_locales
     (auto simp: tcp_bind_def trace_simps require_v4_def owns_only_def Let_def
       then_or_drop_def and_then_def split: socket_addr.splits sum.splits prod.splits)

interpretation udp_bind_fd: fd_constructor udp_bind "\<lambda>K. udp_bind (traced K)"
  "\<lambda>K. drop_udp_socket (traced K)" udp_fd
  by unfold_locales
     (auto simp: udp_bind_def trace_simps require_v4_def owns_only_def Let_def
       then_or_drop_def and_then_def split: socket_addr.splits sum.splits prod.splits)

text \<open>
  C23: connecting, listening and binding a datagram socket each leave exactly one more open
  descriptor on success, the one in the handle, and none on any failure path: a descriptor
  opened before the failing step is closed again, once.
\<close>

theorem sockets_own_their_descriptor:
  "(case tcp_connect (traced K) a (w, t) of (r, w', t') \<Rightarrow>
      tcp_connect K a w = (r, w') \<and> owns_only t t' (map_sum id stream_fd r)) \<and>
   (case tcp_bind (traced K) a (w, t) of (r, w', t') \<Rightarrow>
      tcp_bind K a w = (r, w') \<and> owns_only t t' (map_sum id listener_fd r)) \<and>
   (case udp_bind (traced K) a (w, t) of (r, w', t') \<Rightarrow>
      udp_bind K a w = (r, w') \<and> owns_only t t' (map_sum id udp_fd r))"
  using connect_fd.make_same connect_fd.make_owns bind_fd.make_same bind_fd.make_owns
    udp_bind_fd.make_same udp_bind_fd.make_owns
  by (auto split: prod.splits)

text \<open>
  An IPv6 address is refused by every operation that takes an address, before any system
  call: the state is unchanged.
\<close>

lemma ipv6_refused_without_effect:
  "tcp_connect K (V6 a) w = (Inl (InvalidInput ''IPv6 is not yet supported''), w) \<and>
   tcp_bind K (V6 a) w = (Inl (InvalidInput ''IPv6 is not yet supported''), w) \<and>
   udp_bind K (V6 a) w = (Inl (InvalidInput ''IPv6 is not yet supported''), w) \<and>
   udp_connect K u (V6 a) w = (Inl (InvalidInput ''IPv6 is not yet supported''), w) \<and>
   udp_send_to K u buf (V6 a) w = (Inl (InvalidInput ''IPv6 is not yet supported''), w)"
  by (simp add: tcp_connect_def tcp_bind_def udp_bind_def udp_connect_def udp_send_to_def
      require_v4_def)

subsection \<open>Blocking mode\<close>

text \<open>\<^verbatim>\<open>fcntl\<close> reads and replaces the status flags of the descriptor; \<open>fl\<close> observes them.\<close>

definition fcntl_contract :: "('w, 'x) net_sys_scheme \<Rightarrow> i32 \<Rightarrow> ('w \<Rightarrow> i32) \<Rightarrow> bool" where
  "fcntl_contract K fd fl \<longleftrightarrow>
     (\<forall>w r w'. net_fcntl K fd (F_GETFL K) None w = (r, w') \<longrightarrow>
        fl w' = fl w \<and> (r = -1 \<or> r = fl w)) \<and>
     (\<forall>w v r w'. net_fcntl K fd (F_SETFL K) (Some v) w = (r, w') \<longrightarrow>
        fl w' = (if r = -1 then fl w else v))"

text \<open>
  C33: switching a descriptor's blocking mode changes the non-blocking bit alone; on an error
  the flags are as before.
\<close>

theorem set_nonblocking_changes_one_bit:
  assumes "fcntl_contract K fd fl" and "set_nonblocking_fd K fd nonblocking w = (r, w')"
  shows "case r of
      Inl _ \<Rightarrow> fl w' = fl w
    | Inr _ \<Rightarrow> fl w' AND NOT (O_NONBLOCK K) = fl w AND NOT (O_NONBLOCK K) \<and>
        fl w' AND O_NONBLOCK K = (if nonblocking then O_NONBLOCK K else 0)"
proof -
  have bits: "(x OR o') AND NOT o' = x AND NOT o'" "(x OR o') AND o' = o'"
    "(x AND NOT o') AND NOT o' = x AND NOT o'" "(x AND NOT o') AND o' = 0" for x o' :: i32
    by (rule bit_word_eqI; auto simp: bit_simps)+
  obtain g w1 where g: "net_fcntl K fd (F_GETFL K) None w = (g, w1)" by fastforce
  with assms(1) have g': "fl w1 = fl w" "g = -1 \<or> g = fl w" by (auto simp: fcntl_contract_def)
  show ?thesis
  proof (cases "g = -1")
    case True
    with assms(2) g g' show ?thesis by (auto simp: set_nonblocking_fd_def cvt_i32_def)
  next
    case False
    let ?new = "if nonblocking then g OR O_NONBLOCK K else g AND NOT (O_NONBLOCK K)"
    obtain v w2 where v: "net_fcntl K fd (F_SETFL K) (Some ?new) w1 = (v, w2)" by fastforce
    with assms(1) have "fl w2 = (if v = -1 then fl w1 else ?new)" by (auto simp: fcntl_contract_def)
    with assms(2) g g' v False show ?thesis
      by (cases "v = -1") (auto simp: set_nonblocking_fd_def cvt_i32_def bits split: if_splits)
  qed
qed

definition flag_net :: "i32 net_sys" where
  "flag_net = inert_net
     \<lparr>net_fcntl := (\<lambda>_ c a w. case a of None \<Rightarrow> (w, w) | Some v \<Rightarrow> (0, v))\<rparr>"

theorem set_nonblocking_changes_one_bit_witness:
  "set_nonblocking_fd flag_net 3 True 2 = (Inr (), 6) \<and> (6 :: i32) AND 4 = 4 \<and>
   (6 :: i32) AND NOT 4 = 2 AND NOT 4"
proof -
  have c: "fcntl_contract flag_net 3 (\<lambda>w. w)"
    by (auto simp: fcntl_contract_def flag_net_def inert_net_def)
  have r: "set_nonblocking_fd flag_net 3 True 2 = (Inr (), 6)"
    by (simp add: set_nonblocking_fd_def flag_net_def inert_net_def cvt_i32_def)
  from set_nonblocking_changes_one_bit [OF c r] r show ?thesis
    by (simp add: flag_net_def inert_net_def)
qed

subsection \<open>Name resolution\<close>

text \<open>The list at a pointer: the chain of nodes that starts there and ends with null.\<close>

primrec addrinfo_chain :: "('w, 'x) net_sys_scheme \<Rightarrow> 'w \<Rightarrow> ptr \<Rightarrow> ptr list \<Rightarrow> bool" where
  "addrinfo_chain K w p [] \<longleftrightarrow> p = 0"
| "addrinfo_chain K w p (q # qs) \<longleftrightarrow>
     p = q \<and> q \<noteq> 0 \<and> addrinfo_chain K w (ai_next (net_addrinfo_at K q w)) qs"

definition node_addresses :: "('w, 'x) net_sys_scheme \<Rightarrow> 'w \<Rightarrow> ptr \<Rightarrow> socket_addr list" where
  "node_addresses K w q =
     (let ai = net_addrinfo_at K q w in
      if ai_family ai = AF_INET K \<and> ai_addr ai \<noteq> 0
      then [V4 (from_sockaddr_in (net_sockaddr_at K (ai_addr ai) w))] else [])"

lemma addrinfo_walk_chain:
  "addrinfo_chain K w p qs \<Longrightarrow>
   addrinfo_walk K p out w = Some (out @ concat (map (node_addresses K w) qs))"
  by (induction qs arbitrary: p out)
     (auto simp: addrinfo_walk.simps node_addresses_def Let_def)

text \<open>
  C30: when the resolver succeeds with a null-terminated list, \<^verbatim>\<open>lookup_host\<close> returns, in the
  list's order, exactly the addresses of its \<^verbatim>\<open>AF_INET\<close> nodes that carry one, and frees the
  list once, after the walk; a resolver error is returned as such and frees nothing.
\<close>

theorem lookup_host_collects:
  assumes "NUL \<notin> set host"
    and "net_getaddrinfo K host (dec (unat port))
      \<lparr>hints_family = AF_INET K, hints_socktype = SOCK_STREAM K\<rparr> w = ((rc, res), w1)"
    and "rc = 0 \<Longrightarrow> addrinfo_chain K w1 res qs"
  shows "lookup_host K host port w = Some
    (if rc = 0 then (Inr (concat (map (node_addresses K w1) qs)), net_freeaddrinfo K res w1)
     else (Inl (Gai rc), w1))"
proof -
  have "NUL \<notin> set (dec (unat port))"
  proof
    assume "NUL \<in> set (dec (unat port))"
    then have "visible NUL" by (rule dec_visible)
    then show False by (simp add: visible_def)
  qed
  with assms show ?thesis
    by (cases "rc = 0")
       (simp_all add: lookup_host_def cstr_def addrinfo_walk_chain error_gai_def)
qed

text \<open>A resolver with two nodes, at 100 and 200, of which the second is of another family.\<close>

definition dns_net :: "nat net_sys" where
  "dns_net = inert_net
     \<lparr>net_getaddrinfo := (\<lambda>_ _ _ w. ((0, 100), w)),
      net_addrinfo_at := (\<lambda>p _. if p = 100 then \<lparr>ai_family = 2, ai_addr = 50, ai_next = 200\<rparr>
                               else \<lparr>ai_family = 28, ai_addr = 60, ai_next = 0\<rparr>),
      net_sockaddr_at := (\<lambda>_ _. to_sockaddr_in (inert_net :: nat net_sys)
        \<lparr>v4_ip = (192, 168, 1, 1), v4_port = 80\<rparr>),
      net_freeaddrinfo := (\<lambda>_ w. w + 1)\<rparr>"

theorem lookup_host_collects_witness:
  "lookup_host dns_net ''ps5'' 80 0 = Some (Inr [V4 \<lparr>v4_ip = (192, 168, 1, 1), v4_port = 80\<rparr>], 1)"
proof -
  have "from_sockaddr_in (to_sockaddr_in K a) = a" for K :: "nat net_sys" and a
    by (simp add: from_sockaddr_in_def to_sockaddr_in_def zeroed_sockaddr_in_def)
  then show ?thesis
    using lookup_host_collects [of "''ps5''" dns_net 80 0 0 100 0 "[100, 200]"]
    by (simp add: dns_net_def inert_net_def node_addresses_def)
qed

end
