(* ===== verification/Http_Message.thy ===== *)
theory Http_Message
  imports Errors
begin

text \<open>
  The message half of \<^verbatim>\<open>crates/core/src/http.rs\<close>: the \<^verbatim>\<open>Request\<close> and \<^verbatim>\<open>Response\<close> types,
  their accessors and builders, the encoder of responses, and the parser of request heads
  (the middle part of \<^verbatim>\<open>read_request\<close>). The properties relate the two: what the encoder
  writes, the server's own parser reads back.
\<close>

section \<open>Requests\<close>

type_synonym headers = "(string \<times> string) list"

record request =
  rq_method :: string
  rq_target :: string
  rq_version :: string
  rq_headers :: headers
  rq_body :: "u8 list"

definition path :: "request \<Rightarrow> string" where
  "path req =
     (case split_once (CHR ''?'') (rq_target req) of
        Some (p, _) \<Rightarrow> p
      | None \<Rightarrow> rq_target req)"

definition query :: "request \<Rightarrow> string option" where
  "query req = map_option snd (split_once (CHR ''?'') (rq_target req))"

definition request_header :: "request \<Rightarrow> string \<Rightarrow> string option" where
  "request_header req name =
     map_option snd (find (\<lambda>(k, _). eq_ignore_ascii_case k name) (rq_headers req))"

section \<open>Responses\<close>

record response =
  rs_status :: u16
  rs_headers :: headers
  rs_body :: "u8 list"

definition response_new :: "u16 \<Rightarrow> response" where
  "response_new status = \<lparr>rs_status = status, rs_headers = [], rs_body = []\<rparr>"

definition response_ok :: response where
  "response_ok = response_new 200"

definition with_status :: "response \<Rightarrow> u16 \<Rightarrow> response" where
  "with_status r status = r\<lparr>rs_status := status\<rparr>"

definition with_header :: "response \<Rightarrow> string \<Rightarrow> string \<Rightarrow> response" where
  "with_header r name val = r\<lparr>rs_headers := rs_headers r @ [(name, val)]\<rparr>"

definition with_body :: "response \<Rightarrow> u8 list \<Rightarrow> response" where
  "with_body r body = r\<lparr>rs_body := body\<rparr>"

definition with_content_type :: "response \<Rightarrow> string \<Rightarrow> response" where
  "with_content_type r ct = with_header r ''Content-Type'' ct"

definition response_text :: "response \<Rightarrow> string \<Rightarrow> response" where
  "response_text r body =
     with_body (with_content_type r ''text/plain; charset=utf-8'') (bytes_of body)"

definition response_html :: "response \<Rightarrow> string \<Rightarrow> response" where
  "response_html r body =
     with_body (with_content_type r ''text/html; charset=utf-8'') (bytes_of body)"

definition response_json :: "response \<Rightarrow> string \<Rightarrow> response" where
  "response_json r body = with_body (with_content_type r ''application/json'') (bytes_of body)"

definition reason_phrase :: "u16 \<Rightarrow> string" where
  "reason_phrase status =
     (if status = 200 then ''OK''
      else if status = 201 then ''Created''
      else if status = 204 then ''No Content''
      else if status = 301 then ''Moved Permanently''
      else if status = 302 then ''Found''
      else if status = 304 then ''Not Modified''
      else if status = 400 then ''Bad Request''
      else if status = 401 then ''Unauthorized''
      else if status = 403 then ''Forbidden''
      else if status = 404 then ''Not Found''
      else if status = 405 then ''Method Not Allowed''
      else if status = 413 then ''Payload Too Large''
      else if status = 431 then ''Request Header Fields Too Large''
      else if status = 500 then ''Internal Server Error''
      else if status = 503 then ''Service Unavailable''
      else ''OK'')"

abbreviation crlf :: string where "crlf \<equiv> [CR, LF]"

text \<open>The loop of \<^verbatim>\<open>encode\<close> that appends the caller's header fields.\<close>

fun push_headers :: "string \<Rightarrow> headers \<Rightarrow> string" where
  "push_headers head [] = head"
| "push_headers head ((k, v) # hs) =
     (if eq_ignore_ascii_case k ''content-length'' \<or> eq_ignore_ascii_case k ''connection''
      then push_headers head hs
      else push_headers (head @ k @ '': '' @ v @ crlf) hs)"

definition encode :: "response \<Rightarrow> u8 list" where
  "encode r =
     (let head = ''HTTP/1.1 '' @ dec (unat (rs_status r)) @ '' '' @ reason_phrase (rs_status r) @ crlf;
          head = push_headers head (rs_headers r);
          head = head @ ''Content-Length: '' @ dec (length (rs_body r)) @ crlf;
          head = head @ ''Connection: close'' @ crlf @ crlf
      in bytes_of head @ rs_body r)"

section \<open>The end of the head\<close>

text \<open>\<^verbatim>\<open>buf.windows(n)\<close> and \<^verbatim>\<open>position\<close>.\<close>

definition windows :: "nat \<Rightarrow> 'a list \<Rightarrow> 'a list list" where
  "windows n xs = map (\<lambda>i. take n (drop i xs)) [0..<Suc (length xs) - n]"

fun position :: "('a \<Rightarrow> bool) \<Rightarrow> 'a list \<Rightarrow> nat option" where
  "position p [] = None"
| "position p (x # xs) = (if p x then Some 0 else map_option Suc (position p xs))"

definition double_crlf :: "u8 list" where
  "double_crlf = [13, 10, 13, 10]"

definition find_double_crlf :: "u8 list \<Rightarrow> nat option" where
  "find_double_crlf buf = position (\<lambda>w. w = double_crlf) (windows 4 buf)"

lemma windows_Nil: "0 < n \<Longrightarrow> windows n [] = []"
  by (simp add: windows_def)

lemma windows_Cons:
  "windows n (x # xs) =
     (if n \<le> Suc (length xs) then take n (x # xs) # windows n xs else [])"
proof (cases "n \<le> Suc (length xs)")
  case True
  then have "[0..<Suc (length (x # xs)) - n] = 0 # map Suc [0..<Suc (length xs) - n]"
    by (simp add: Suc_diff_le upt_conv_Cons map_Suc_upt del: upt_Suc)
  with True show ?thesis by (simp add: windows_def del: upt_Suc)
qed (simp add: windows_def)

lemma windows_short: "length xs < n \<Longrightarrow> windows n xs = []"
  by (simp add: windows_def)

lemma find_double_crlf_Nil [simp]: "find_double_crlf [] = None"
  by (simp add: find_double_crlf_def windows_Nil)

lemma find_double_crlf_Cons:
  "find_double_crlf (b # bs) =
     (if take 4 (b # bs) = double_crlf then Some 0 else map_option Suc (find_double_crlf bs))"
proof (cases "4 \<le> Suc (length bs)")
  case False
  then have "take 4 (b # bs) \<noteq> double_crlf"
    by (auto simp: double_crlf_def dest: arg_cong [where f = length])
  with False show ?thesis
    by (simp add: find_double_crlf_def windows_Cons windows_short)
qed (simp add: find_double_crlf_def windows_Cons)

lemma find_double_crlf_Some:
  "find_double_crlf buf = Some p \<longleftrightarrow>
     take 4 (drop p buf) = double_crlf \<and> (\<forall>i<p. take 4 (drop i buf) \<noteq> double_crlf)"
proof (induction buf arbitrary: p)
  case Nil
  then show ?case by (simp add: double_crlf_def)
next
  case (Cons b bs)
  then show ?case
    by (cases p) (auto simp: find_double_crlf_Cons less_Suc_eq_0_disj simp del: take_Suc_Cons)
qed

lemma find_double_crlf_le: "find_double_crlf buf = Some p \<Longrightarrow> p + 4 \<le> length buf"
proof -
  assume "find_double_crlf buf = Some p"
  then have "length (take 4 (drop p buf)) = 4" by (simp add: find_double_crlf_Some double_crlf_def)
  then show ?thesis by simp
qed

section \<open>Parsing a head\<close>

text \<open>The loop of \<^verbatim>\<open>read_request\<close> over the lines after the request line.\<close>

fun parse_headers :: "string list \<Rightarrow> headers \<Rightarrow> headers result" where
  "parse_headers [] hs = Inr hs"
| "parse_headers (line # lines) hs =
     (if line = [] then parse_headers lines hs
      else case split_once (CHR '':'') line of
        None \<Rightarrow> Inl (InvalidInput ''malformed header line'')
      | Some (name, val) \<Rightarrow> parse_headers lines (hs @ [(trim name, trim val)]))"

text \<open>
  The request line and the header fields. \<^verbatim>\<open>lines.next()\<close> and the first \<^verbatim>\<open>parts.next()\<close>
  are written with their error branches, although a split always has a first piece.
\<close>

definition parse_head :: "string \<Rightarrow> (string \<times> string \<times> string \<times> headers) result" where
  "parse_head head =
     (case split_crlf head of
        [] \<Rightarrow> Inl (InvalidInput ''missing request line'')
      | request_line # lines \<Rightarrow>
        (case split_char (CHR '' '') request_line of
           [] \<Rightarrow> Inl (InvalidInput ''missing method'')
         | [method] \<Rightarrow> Inl (InvalidInput ''missing request target'')
         | [method, target] \<Rightarrow> Inl (InvalidInput ''missing HTTP version'')
         | method # target # version # _ \<Rightarrow>
           (case parse_headers lines [] of
              Inl e \<Rightarrow> Inl e
            | Inr hs \<Rightarrow> Inr (method, target, version, hs))))"

definition content_length :: "headers \<Rightarrow> usize" where
  "content_length hs =
     (case find (\<lambda>(k, _). eq_ignore_ascii_case k ''content-length'') hs of
        None \<Rightarrow> 0
      | Some (_, v) \<Rightarrow> (case parse_usize (trim v) of None \<Rightarrow> 0 | Some n \<Rightarrow> n))"

section \<open>Heads made of lines\<close>

fun crlf_join :: "string list \<Rightarrow> string" where
  "crlf_join [] = []"
| "crlf_join [l] = l"
| "crlf_join (l # m # ms) = l @ crlf @ crlf_join (m # ms)"

lemma crlf_join_Cons: "ls \<noteq> [] \<Longrightarrow> crlf_join (l # ls) = l @ crlf @ crlf_join ls"
  by (cases ls) auto

lemma crlf_join_lines: "concat (map (\<lambda>l. l @ crlf) ls) @ m = crlf_join (ls @ [m])"
  by (induction ls) (auto simp: crlf_join_Cons)

lemma split_crlf_join [str_simps]:
  "ls \<noteq> [] \<Longrightarrow> (\<And>l. l \<in> set ls \<Longrightarrow> CR \<notin> set l) \<Longrightarrow> split_crlf (crlf_join ls) = ls"
proof (induction ls rule: crlf_join.induct)
  case (3 l m ms)
  then have "CR \<notin> set l" and "split_crlf (crlf_join (m # ms)) = m # ms" by auto
  then show ?case using split_crlf_append [of l "crlf_join (m # ms)"] by simp
qed (auto simp: split_crlf_none)

lemma byte_of_CR [simp]: "byte_of CR = 13" and byte_of_LF [simp]: "byte_of LF = 10"
  by (simp_all add: byte_of_def)

lemma byte_of_eq_13 [simp]: "byte_of c = 13 \<longleftrightarrow> c = CR"
  by (metis byte_of_CR byte_of_eq_iff)

lemma find_double_crlf_line:
  "CR \<notin> set l \<Longrightarrow>
   find_double_crlf (bytes_of l @ bs) = map_option ((+) (length l)) (find_double_crlf bs)"
  by (induction l; cases "find_double_crlf bs") (auto simp: find_double_crlf_Cons double_crlf_def)

lemma find_double_crlf_crlf:
  assumes "bs \<noteq> []" and "hd bs \<noteq> 13"
  shows "find_double_crlf (13 # 10 # bs) = map_option (\<lambda>n. n + 2) (find_double_crlf bs)"
  using assms by (cases bs) (auto simp: find_double_crlf_Cons double_crlf_def option.map_comp o_def)

text \<open>Lines without CR, none of them empty after the first: the marker is where they end.\<close>

lemma find_double_crlf_join:
  assumes "ls \<noteq> []" and "\<And>l. l \<in> set ls \<Longrightarrow> CR \<notin> set l" and "[] \<notin> set (tl ls)"
  shows "find_double_crlf (bytes_of (crlf_join ls) @ double_crlf @ rest) =
    Some (length (crlf_join ls))"
  using assms
proof (induction ls rule: crlf_join.induct)
  case (2 l)
  have "find_double_crlf (double_crlf @ rest) = Some 0"
    by (simp add: double_crlf_def find_double_crlf_Cons)
  with 2 show ?case by (simp add: find_double_crlf_line)
next
  case (3 l m ms)
  let ?bs = "bytes_of (crlf_join (m # ms)) @ double_crlf @ rest"
  obtain c cs where m: "m = c # cs" using "3.prems" by (cases m) auto
  then have hd: "?bs \<noteq> []" "hd ?bs \<noteq> 13"
    using "3.prems"(2) [of m] by (cases ms; auto)+
  have "find_double_crlf ?bs = Some (length (crlf_join (m # ms)))"
    using "3.prems" by (intro "3.IH") auto
  with find_double_crlf_crlf [OF hd] "3.prems"(2) [of l] show ?case
    by (simp add: find_double_crlf_line)
qed simp

text \<open>A header field the parser reads back as it was written.\<close>

definition header_line :: "string \<times> string \<Rightarrow> string" where
  "header_line h = fst h @ '': '' @ snd h"

definition plain_header :: "string \<times> string \<Rightarrow> bool" where
  "plain_header h \<longleftrightarrow>
     CR \<notin> set (fst h) \<and> CR \<notin> set (snd h) \<and> CHR '':'' \<notin> set (fst h) \<and>
     trim (fst h) = fst h \<and> trim (snd h) = snd h"

lemma header_line_nonempty [simp]: "header_line h \<noteq> []"
  by (simp add: header_line_def)

lemma header_line_CR: "plain_header h \<Longrightarrow> CR \<notin> set (header_line h)"
  by (auto simp: plain_header_def header_line_def)

lemma split_header_line:
  "plain_header (k, v) \<Longrightarrow> split_once (CHR '':'') (header_line (k, v)) = Some (k, CHR '' '' # v)"
  by (simp add: plain_header_def header_line_def split_once_append)

lemma parse_header_lines [str_simps]:
  "(\<And>h. h \<in> set hs \<Longrightarrow> plain_header h) \<Longrightarrow>
   parse_headers (map header_line hs) acc = Inr (acc @ hs)"
proof (induction hs arbitrary: acc)
  case (Cons h hs)
  obtain k v where h: "h = (k, v)" by (cases h)
  have "plain_header (k, v)" using Cons.prems h by simp
  then have "split_once (CHR '':'') (header_line h) = Some (k, CHR '' '' # v)"
    and "trim k = k" "trim v = v"
    using split_header_line h by (auto simp: plain_header_def)
  with Cons h show ?case by simp
qed simp

section \<open>What the encoder writes\<close>

abbreviation own_header :: "string \<Rightarrow> bool" where
  "own_header k \<equiv>
     eq_ignore_ascii_case k ''content-length'' \<or> eq_ignore_ascii_case k ''connection''"

text \<open>The header fields on the wire: the caller's, less the two the encoder owns, then those.\<close>

definition sent_headers :: "response \<Rightarrow> headers" where
  "sent_headers r =
     filter (\<lambda>(k, v). \<not> own_header k) (rs_headers r) @
     [(''Content-Length'', dec (length (rs_body r))), (''Connection'', ''close'')]"

definition status_line :: "response \<Rightarrow> string" where
  "status_line r = ''HTTP/1.1 '' @ dec (unat (rs_status r)) @ '' '' @ reason_phrase (rs_status r)"

definition head_text :: "response \<Rightarrow> string" where
  "head_text r = crlf_join (status_line r # map header_line (sent_headers r))"

lemma push_headers_eq:
  "push_headers head hs =
     head @ concat (map (\<lambda>h. header_line h @ crlf) (filter (\<lambda>(k, v). \<not> own_header k) hs))"
  by (induction head hs rule: push_headers.induct) (auto simp: header_line_def)

lemma bytes_of_double: "bytes_of (crlf @ crlf) = double_crlf"
  by (simp add: double_crlf_def)

lemma encode_layout: "encode r = bytes_of (head_text r) @ double_crlf @ rs_body r"
proof -
  let ?hs = "filter (\<lambda>(k, v). \<not> own_header k) (rs_headers r)"
  let ?cl = "(''Content-Length'', dec (length (rs_body r)))"
  have "head_text r =
      status_line r @ crlf @ concat (map (\<lambda>h. header_line h @ crlf) ?hs) @
      header_line ?cl @ crlf @ header_line (''Connection'', ''close'')"
    using crlf_join_lines [of "status_line r # map header_line (?hs @ [?cl])"
        "header_line (''Connection'', ''close'')"]
    by (simp add: head_text_def sent_headers_def o_def)
  then have "encode r = bytes_of (head_text r @ crlf @ crlf) @ rs_body r"
    by (simp add: encode_def Let_def push_headers_eq status_line_def header_line_def)
  then show ?thesis by (simp flip: bytes_of_double)
qed

definition reason_phrases :: "string list" where
  "reason_phrases =
     [''OK'', ''Created'', ''No Content'', ''Moved Permanently'', ''Found'', ''Not Modified'',
      ''Bad Request'', ''Unauthorized'', ''Forbidden'', ''Not Found'', ''Method Not Allowed'',
      ''Payload Too Large'', ''Request Header Fields Too Large'', ''Internal Server Error'',
      ''Service Unavailable'']"

lemma reason_phrase_in: "reason_phrase s \<in> set reason_phrases"
  by (simp add: reason_phrase_def reason_phrases_def)

lemma reason_phrases_visible: "\<forall>p \<in> set reason_phrases. \<forall>c \<in> set p. c = CHR '' '' \<or> visible c"
  by code_simp

lemma reason_phrase_visible: "c \<in> set (reason_phrase s) \<Longrightarrow> c = CHR '' '' \<or> visible c"
  using reason_phrase_in reason_phrases_visible by blast

lemma status_line_no_CR: "CR \<notin> set (status_line r)"
  using reason_phrase_visible [of CR "rs_status r"]
  by (auto simp: status_line_def visible_def)

lemma plain_own_headers:
  "plain_header (''Content-Length'', dec n)" "plain_header (''Connection'', ''close'')"
  by (simp_all add: plain_header_def trim_visible visible_def)

lemma plain_sent_headers:
  "(\<And>h. h \<in> set (rs_headers r) \<Longrightarrow> plain_header h) \<Longrightarrow> h \<in> set (sent_headers r) \<Longrightarrow> plain_header h"
  by (auto simp: sent_headers_def plain_own_headers)

lemma content_length_ci:
  "eq_ignore_ascii_case ''Content-Length'' ''content-length''"
  "\<not> eq_ignore_ascii_case ''Connection'' ''content-length''"
  by code_simp+

lemma find_sent_headers:
  "find (\<lambda>(k, _). eq_ignore_ascii_case k ''content-length'') (sent_headers r) =
     Some (''Content-Length'', dec (length (rs_body r)))"
proof -
  have "find (\<lambda>(k, _). eq_ignore_ascii_case k ''content-length'')
      (filter (\<lambda>(k, v). \<not> own_header k) hs @ rest) =
    find (\<lambda>(k, _). eq_ignore_ascii_case k ''content-length'') rest" for hs rest :: headers
    by (induction hs) auto
  then show ?thesis
    by (simp only: sent_headers_def find.simps split content_length_ci if_True)
qed

lemma content_length_sent:
  "length (rs_body r) < 2 ^ 64 \<Longrightarrow> content_length (sent_headers r) = of_nat (length (rs_body r))"
  by (simp add: content_length_def find_sent_headers parse_usize_dec)

section \<open>Rendered heads\<close>

text \<open>What the reader makes of a head whose first line is \<open>l\<close> and whose fields are \<open>hs\<close>.\<close>

definition head_of :: "string \<Rightarrow> headers \<Rightarrow> string" where
  "head_of l hs = crlf_join (l # map header_line hs)"

definition sendable :: "string \<times> string \<Rightarrow> bool" where
  "sendable h \<longleftrightarrow> plain_header h \<and> str_valid (fst h) \<and> str_valid (snd h)"

lemma head_text_head_of: "head_text r = head_of (status_line r) (sent_headers r)"
  by (simp add: head_text_def head_of_def)

lemma str_valid_crlf: "str_valid crlf"
  by (rule str_valid_ascii) auto

lemma str_valid_crlf_join: "\<forall>l \<in> set ls. str_valid l \<Longrightarrow> str_valid (crlf_join ls)"
proof (induction ls rule: crlf_join.induct)
  case (3 l m ms)
  then have "str_valid (l @ crlf @ crlf_join (m # ms))"
    by (intro str_valid_append str_valid_crlf) auto
  then show ?case by simp
qed (auto intro: str_valid_ascii)

lemma str_valid_header_line: "sendable h \<Longrightarrow> str_valid (header_line h)"
proof -
  assume h: "sendable h"
  have "str_valid '': ''" by (rule str_valid_ascii) simp
  with h show ?thesis unfolding header_line_def sendable_def by (blast intro: str_valid_append)
qed

lemma head_of_reads [str_simps]:
  assumes "CR \<notin> set l" and "str_valid l" and "\<forall>h \<in> set hs. sendable h"
  shows "find_double_crlf (bytes_of (head_of l hs) @ double_crlf @ rest) = Some (length (head_of l hs))"
    and "from_utf8 (bytes_of (head_of l hs)) = Some (head_of l hs)"
    and "split_crlf (head_of l hs) = l # map header_line hs"
    and "parse_headers (map header_line hs) [] = Inr hs"
proof -
  have plain: "plain_header h" if "h \<in> set hs" for h
    using assms(3) that by (simp add: sendable_def)
  have lines: "CR \<notin> set x" if "x \<in> set (l # map header_line hs)" for x
    using that assms(1) plain by (auto simp: header_line_CR)
  show "find_double_crlf (bytes_of (head_of l hs) @ double_crlf @ rest) = Some (length (head_of l hs))"
    unfolding head_of_def
    by (rule find_double_crlf_join) (use lines in \<open>auto simp del: split_paired_All simp: header_line_def\<close>)
  show "split_crlf (head_of l hs) = l # map header_line hs"
    unfolding head_of_def by (rule split_crlf_join) (use lines in auto)
  show "parse_headers (map header_line hs) [] = Inr hs"
    using parse_header_lines [of hs "[]"] plain by simp
  have "str_valid (head_of l hs)"
    unfolding head_of_def using assms(2,3) by (intro str_valid_crlf_join) (auto simp: str_valid_header_line)
  then show "from_utf8 (bytes_of (head_of l hs)) = Some (head_of l hs)" by simp
qed

lemma visible_str_valid: "(\<And>c. c \<in> set s \<Longrightarrow> c = CHR '' '' \<or> visible c) \<Longrightarrow> str_valid s"
  by (rule str_valid_ascii) (force simp: visible_def)

lemma status_line_valid: "str_valid (status_line r)"
proof (rule visible_str_valid)
  fix c assume "c \<in> set (status_line r)"
  then consider "c \<in> set ''HTTP/1.1 ''" | "c \<in> set (dec (unat (rs_status r)))" | "c = CHR '' ''"
    | "c \<in> set (reason_phrase (rs_status r))"
    by (auto simp: status_line_def)
  then show "c = CHR '' '' \<or> visible c"
    by cases (auto simp: visible_def dest: reason_phrase_visible dec_visible)
qed

lemma own_sendable:
  "sendable (''Content-Length'', dec n)" "sendable (''Connection'', ''close'')"
proof -
  have "str_valid ''Content-Length''" "str_valid ''Connection''" "str_valid ''close''"
    by (rule str_valid_ascii; simp)+
  moreover have "str_valid (dec n)" by (rule visible_str_valid) (simp add: dec_visible)
  ultimately show "sendable (''Content-Length'', dec n)" "sendable (''Connection'', ''close'')"
    by (simp_all add: sendable_def plain_own_headers)
qed

lemma sent_headers_sendable: "\<forall>h \<in> set (rs_headers r). sendable h \<Longrightarrow> \<forall>h \<in> set (sent_headers r). sendable h"
proof
  fix h assume user: "\<forall>h \<in> set (rs_headers r). sendable h" and "h \<in> set (sent_headers r)"
  then consider "h \<in> set (rs_headers r)" | "h = (''Content-Length'', dec (length (rs_body r)))"
    | "h = (''Connection'', ''close'')"
    by (auto simp: sent_headers_def)
  then show "sendable h"
    by cases (use user own_sendable in auto)
qed

lemma split_status_line:
  "\<exists>v vs. split_char (CHR '' '') (status_line r) = ''HTTP/1.1'' # dec (unat (rs_status r)) # v # vs"
proof -
  have "CHR '' '' \<notin> set (dec (unat (rs_status r)))"
    using dec_visible [of "CHR '' ''"] by (auto simp: visible_def)
  then have "split_char (CHR '' '') (status_line r) =
      ''HTTP/1.1'' # dec (unat (rs_status r)) # split_char (CHR '' '') (reason_phrase (rs_status r))"
    using split_char_append [of "CHR '' ''" "''HTTP/1.1''"] by (simp add: status_line_def str_simps)
  then show ?thesis by (cases "split_char (CHR '' '') (reason_phrase (rs_status r))") auto
qed

section \<open>Properties\<close>

text \<open>
  C6: a response whose header fields can be sent, that is whose names and values are valid
  strings without a CR and without outer blanks, the names without a colon, is read back by the
  server's own parser as it was built: the head ends where the body begins, the head is valid
  UTF-8 whose fields are the caller's (less the two the encoder owns) followed by one
  \<^verbatim>\<open>Content-Length\<close>, equal to the body's length, and \<^verbatim>\<open>Connection: close\<close>. (What other fields
  do is the property on header values below.)
\<close>

theorem encoded_response_reads_back:
  assumes "\<forall>h \<in> set (rs_headers r). sendable h" and "length (rs_body r) < 2 ^ 64"
  shows "\<exists>p head v.
    find_double_crlf (encode r) = Some p \<and> from_utf8 (take p (encode r)) = Some head \<and>
    parse_head head = Inr (''HTTP/1.1'', dec (unat (rs_status r)), v, sent_headers r) \<and>
    content_length (sent_headers r) = of_nat (length (rs_body r)) \<and>
    filter (\<lambda>(k, _). eq_ignore_ascii_case k ''content-length'') (sent_headers r) =
      [(''Content-Length'', dec (length (rs_body r)))] \<and>
    drop (p + 4) (encode r) = rs_body r"
proof -
  note reads = head_of_reads [OF status_line_no_CR [of r] status_line_valid [of r]
      sent_headers_sendable [OF assms(1)], folded head_text_head_of]
  let ?p = "length (head_text r)"
  have "find_double_crlf (encode r) = Some ?p"
    using reads(1) by (simp add: encode_layout)
  moreover have "from_utf8 (take ?p (encode r)) = Some (head_text r)"
    using reads(2) by (simp add: encode_layout)
  moreover have "drop (?p + 4) (encode r) = rs_body r"
    by (simp add: encode_layout double_crlf_def)
  moreover obtain v vs where
    "split_char (CHR '' '') (status_line r) = ''HTTP/1.1'' # dec (unat (rs_status r)) # v # vs"
    using split_status_line by blast
  then have "parse_head (head_text r) = Inr (''HTTP/1.1'', dec (unat (rs_status r)), v, sent_headers r)"
    using reads(3,4) by (simp add: parse_head_def)
  moreover have "filter (\<lambda>(k, _). eq_ignore_ascii_case k ''content-length'') (sent_headers r) =
      [(''Content-Length'', dec (length (rs_body r)))]"
  proof -
    have "filter (\<lambda>(k, _). eq_ignore_ascii_case k ''content-length'')
        (filter (\<lambda>(k, v). \<not> own_header k) hs) = []" for hs :: headers
      by (induction hs) auto
    then show ?thesis
      by (simp only: sent_headers_def filter_append filter.simps split content_length_ci if_True
          if_False append_Nil)
  qed
  ultimately show ?thesis using content_length_sent [OF assms(2)] by blast
qed

lemma sendable_visible:
  "(\<And>c. c \<in> set k \<union> set v \<Longrightarrow> visible c) \<Longrightarrow> CHR '':'' \<notin> set k \<Longrightarrow> sendable (k, v)"
  unfolding sendable_def plain_header_def
  by (intro conjI; force simp: visible_def intro: trim_visible visible_str_valid)

definition sample_response :: response where
  "sample_response = with_body (with_header (response_new 404) ''X-Id'' ''7'') [104, 105]"

theorem encoded_response_reads_back_witness:
  "\<exists>p. find_double_crlf (encode sample_response) = Some p \<and>
     drop (p + 4) (encode sample_response) = [104, 105]"
proof -
  have "sendable (''X-Id'', ''7'')" by (rule sendable_visible) (auto simp: visible_def)
  then have "\<forall>h \<in> set (rs_headers sample_response). sendable h"
    by (simp add: sample_response_def with_body_def with_header_def response_new_def)
  from encoded_response_reads_back [OF this] show ?thesis
    by (auto simp: sample_response_def with_body_def)
qed

text \<open>
  C35: header values are written as they are. A value that contains a line break puts a
  header field of the value's choosing on the wire, also one the encoder otherwise
  reserves: the bytes sent are those of a head with that further field.
\<close>

theorem header_values_are_not_sanitised:
  assumes "\<not> eq_ignore_ascii_case k ''content-length''"
    and "\<not> eq_ignore_ascii_case k ''connection''"
  shows "encode (with_header r k (v @ [CR, LF] @ k' @ '': '' @ v')) =
    bytes_of (head_of (status_line r)
      (filter (\<lambda>(k, v). \<not> own_header k) (rs_headers r) @
       [(k, v), (k', v'), (''Content-Length'', dec (length (rs_body r))), (''Connection'', ''close'')])) @
    double_crlf @ rs_body r"
proof -
  have join: "crlf_join (ls @ (a @ [CR, LF] @ b) # m # ms) = crlf_join (ls @ a # b # m # ms)"
    for a b m :: string and ls ms
    by (induction ls) (auto simp: crlf_join_Cons)
  from join [of "status_line r # map header_line (filter (\<lambda>(k, v). \<not> own_header k) (rs_headers r))"
      "header_line (k, v)" "header_line (k', v')"]
  show ?thesis
    using assms unfolding encode_layout head_text_def head_of_def sent_headers_def
    by (simp add: with_header_def status_line_def header_line_def)
qed

theorem header_values_are_not_sanitised_witness:
  "\<not> eq_ignore_ascii_case ''X'' ''content-length'' \<and>
   encode (with_header response_ok ''X'' (''a'' @ [CR, LF] @ ''Content-Length'' @ '': '' @ ''9'')) =
   bytes_of (head_of (status_line response_ok)
     [(''X'', ''a''), (''Content-Length'', ''9''), (''Content-Length'', dec 0),
      (''Connection'', ''close'')]) @ double_crlf"
proof -
  have x: "\<not> eq_ignore_ascii_case ''X'' ''content-length''"
    "\<not> eq_ignore_ascii_case ''X'' ''connection''" by code_simp+
  have ok: "rs_headers response_ok = []" "rs_body response_ok = []"
    by (simp_all add: response_ok_def response_new_def)
  from header_values_are_not_sanitised [OF x, of response_ok "''a''" "''Content-Length''" "''9''"]
  show ?thesis using x(1) unfolding ok by simp
qed

text \<open>
  Path and query are the two halves of the target around its first question mark: put
  together they give the target back, and the path has no question mark.
\<close>

lemma target_is_path_and_query:
  "rq_target req = path req @ (case query req of None \<Rightarrow> [] | Some q \<Rightarrow> CHR ''?'' # q) \<and>
   CHR ''?'' \<notin> set (path req)"
proof (cases "split_once (CHR ''?'') (rq_target req)")
  case None
  with split_once_None [of "CHR ''?''" "rq_target req"] show ?thesis
    by (simp add: path_def query_def)
next
  case (Some pq)
  then obtain p q where "split_once (CHR ''?'') (rq_target req) = Some (p, q)" by (cases pq) auto
  from this split_once_Some [OF this] show ?thesis by (simp add: path_def query_def)
qed

end
