(* ===== verification/Http_Reader.thy ===== *)
theory Http_Reader
  imports Net Http_Message
begin

text \<open>
  How the server of \<^verbatim>\<open>crates/core/src/http.rs\<close> reads one request from a connection under its
  size limits (\<^verbatim>\<open>read_request\<close>). It is the client of the socket's \<^verbatim>\<open>read\<close> (theory \<open>Net\<close>) and of
  the parser (theory \<open>Http_Message\<close>). The properties hold for every way a peer's bytes arrive.
\<close>

section \<open>Settings\<close>

definition DEFAULT_MAX_HEADER_BYTES :: usize where
  "DEFAULT_MAX_HEADER_BYTES = 64 * 1024"

definition DEFAULT_MAX_BODY_BYTES :: usize where
  "DEFAULT_MAX_BODY_BYTES = 8 * 1024 * 1024"

definition READ_CHUNK :: nat where
  "READ_CHUNK = 4096"

record limits =
  max_header_bytes :: usize
  max_body_bytes :: usize

section \<open>Reading a request\<close>

text \<open>
  The first loop of \<^verbatim>\<open>read_request\<close>: grow \<open>buf\<close> until it holds the end of the head. The
  result is the head's end and the buffer, or \<open>None\<close> when the peer closed before sending
  anything. The chunk buffer goes from read to read with its stale bytes. Every read that
  does not end the loop adds a byte, and beyond the limit there is no further read.
\<close>

function read_head ::
  "('w, 'x) net_sys_scheme \<Rightarrow> tcp_stream \<Rightarrow> limits \<Rightarrow> u8 list \<Rightarrow> u8 list \<Rightarrow> 'w \<Rightarrow>
   (failure + (nat \<times> u8 list) option) \<times> u8 list \<times> 'w" where
  "read_head K s lim chunk buf w =
     (case find_double_crlf buf of
        Some pos \<Rightarrow> (Inr (Some (pos, buf)), chunk, w)
      | None \<Rightarrow>
          if unat (max_header_bytes lim) < length buf
          then (Inl (Fail (InvalidInput ''request head exceeds limit'')), chunk, w)
          else (case tcp_read K s chunk w of
            (Inl e, chunk', w1) \<Rightarrow> (Inl (Fail e), chunk', w1)
          | (Inr n, chunk', w1) \<Rightarrow>
              if n = 0
              then (if buf = [] then (Inr None, chunk', w1)
                    else (Inl (Fail (InvalidInput ''connection closed mid-request'')), chunk', w1))
              else (case slice_to (unat n) chunk' of
                      None \<Rightarrow> (Inl Panic, chunk', w1)
                    | Some got \<Rightarrow> read_head K s lim chunk' (buf @ got) w1)))"
  by pat_completeness auto
termination
  by (relation "measure (\<lambda>(K, s, lim, chunk, buf, w). Suc (unat (max_header_bytes lim)) - length buf)")
     (auto simp: slice_to_Some unat_gt_0 intro!: diff_less_mono2)

declare read_head.simps [simp del]

text \<open>The second loop: read until the announced length has arrived or the peer closes.\<close>

function read_body ::
  "('w, 'x) net_sys_scheme \<Rightarrow> tcp_stream \<Rightarrow> usize \<Rightarrow> u8 list \<Rightarrow> u8 list \<Rightarrow> 'w \<Rightarrow>
   (failure + u8 list) \<times> 'w" where
  "read_body K s cl chunk body w =
     (if length body < unat cl
      then (case tcp_read K s chunk w of
          (Inl e, chunk', w1) \<Rightarrow> (Inl (Fail e), w1)
        | (Inr n, chunk', w1) \<Rightarrow>
            if n = 0 then (Inr body, w1)
            else (case slice_to (unat n) chunk' of
                    None \<Rightarrow> (Inl Panic, w1)
                  | Some got \<Rightarrow> read_body K s cl chunk' (body @ got) w1))
      else (Inr body, w))"
  by pat_completeness auto
termination
  by (relation "measure (\<lambda>(K, s, cl, chunk, body, w). unat cl - length body)")
     (auto simp: slice_to_Some unat_gt_0 intro!: diff_less_mono2)

declare read_body.simps [simp del]

definition read_request ::
  "('w, 'x) net_sys_scheme \<Rightarrow> tcp_stream \<Rightarrow> limits \<Rightarrow> 'w \<Rightarrow> (failure + request option) \<times> 'w" where
  "read_request K s lim w =
     (case read_head K s lim (replicate READ_CHUNK 0) [] w of
        (Inl e, _, w1) \<Rightarrow> (Inl e, w1)
      | (Inr None, _, w1) \<Rightarrow> (Inr None, w1)
      | (Inr (Some (head_end, buf)), chunk, w1) \<Rightarrow>
        (case slice_to head_end buf of
           None \<Rightarrow> (Inl Panic, w1)
         | Some head_bytes \<Rightarrow>
        (case from_utf8 head_bytes of
           None \<Rightarrow> (Inl (Fail (InvalidInput ''request head is not valid UTF-8'')), w1)
         | Some head \<Rightarrow>
        (case parse_head head of
           Inl e \<Rightarrow> (Inl (Fail e), w1)
         | Inr (method, target, version, hs) \<Rightarrow>
           let cl = content_length hs in
           if max_body_bytes lim < cl
           then (Inl (Fail (InvalidInput ''request body exceeds limit'')), w1)
           else (case slice_from (head_end + 4) buf of
              None \<Rightarrow> (Inl Panic, w1)
            | Some body0 \<Rightarrow>
              (case read_body K s cl chunk body0 w1 of
                 (Inl e, w2) \<Rightarrow> (Inl e, w2)
               | (Inr body, w2) \<Rightarrow>
                   (Inr (Some \<lparr>rq_method = method, rq_target = target, rq_version = version,
                               rq_headers = hs, rq_body = take (unat cl) body\<rparr>), w2)))))))"

section \<open>The head and body loops on a well-behaved socket\<close>

lemma find_double_crlf_append:
  "find_double_crlf xs = Some p \<Longrightarrow> find_double_crlf (xs @ ys) = Some p"
proof -
  assume f: "find_double_crlf xs = Some p"
  then have "p + 4 \<le> length xs" by (rule find_double_crlf_le)
  with f show ?thesis by (auto simp: find_double_crlf_Some)
qed

lemma find_double_crlf_prefix:
  "find_double_crlf (xs @ ys) = Some p \<Longrightarrow> p + 4 \<le> length xs \<Longrightarrow> find_double_crlf xs = Some p"
  by (auto simp: find_double_crlf_Some)

lemma read_head_contract:
  assumes c: "recv_contract K s pend" and "chunk \<noteq> []"
    and "read_head K s lim chunk buf w = (r, chunk', w')"
  shows "r \<noteq> Inl Panic \<and> length chunk' = length chunk \<and>
    (\<exists>got. pend w = got @ pend w' \<and>
       length (buf @ got) \<le> max (length buf) (unat (max_header_bytes lim) + length chunk) \<and>
       (case r of
          Inr (Some (p, buf')) \<Rightarrow> buf' = buf @ got \<and> find_double_crlf buf' = Some p
        | Inr None \<Rightarrow> buf = [] \<and> got = [] \<and> pend w = []
        | Inl _ \<Rightarrow> True))"
  using assms
proof (induction K s lim chunk buf w arbitrary: r chunk' w' rule: read_head.induct)
  case (1 K s lim chunk buf w)
  show ?case
  proof (cases "find_double_crlf buf = None \<and> length buf \<le> unat (max_header_bytes lim)")
    case False
    then show ?thesis using "1.prems"
      by (auto simp: read_head.simps [of K s lim chunk buf] split: option.splits)
  next
    case go: True
    then have none: "find_double_crlf buf = None" and lim: "\<not> unat (max_header_bytes lim) < length buf"
      by auto
    obtain res chunk1 w1 where rd: "tcp_read K s chunk w = (res, chunk1, w1)"
      by (cases "tcp_read K s chunk w")
    show ?thesis
    proof (cases res)
      case (Inl e)
      with "1.prems" go rd tcp_source.recv_err [OF "1.prems"(1)] tcp_source.recv_len [OF rd]
      show ?thesis by (auto simp: read_head.simps [of K s lim chunk buf])
    next
      case (Inr n)
      note some = tcp_source.recv_some [OF "1.prems"(1) rd [unfolded Inr]]
      have ne: "chunk1 \<noteq> []" using some(4) "1.prems"(2) by auto
      show ?thesis
      proof (cases "n = 0")
        case True
        with "1.prems" go rd Inr some tcp_source.recv_eof [OF "1.prems"(1) _ "1.prems"(2)]
        show ?thesis by (auto simp: read_head.simps [of K s lim chunk buf] split: if_splits)
      next
        case False
        let ?got = "take (unat n) chunk1"
        have "read_head K s lim chunk1 (buf @ ?got) w1 = (r, chunk', w')"
          using "1.prems" go rd Inr False some(1)
          by (simp add: read_head.simps [of K s lim chunk buf] not_less)
        from "1.IH" [OF none lim rd [symmetric] Inr refl False some(1) "1.prems"(1) ne this]
        obtain got where IH: "r \<noteq> Inl Panic" "length chunk' = length chunk1"
          "pend w1 = got @ pend w'"
          "length ((buf @ ?got) @ got) \<le>
             max (length (buf @ ?got)) (unat (max_header_bytes lim) + length chunk1)"
          "case r of
            Inr (Some (p, buf')) \<Rightarrow> buf' = (buf @ ?got) @ got \<and> find_double_crlf buf' = Some p
          | Inr None \<Rightarrow> buf @ ?got = [] \<and> got = [] \<and> pend w1 = []
          | Inl _ \<Rightarrow> True"
          by blast
        have "length ?got \<le> length chunk" "?got \<noteq> []"
          using some(2) ne False tcp_source.recv_ok [OF "1.prems"(1) rd [unfolded Inr]]
          by (simp_all add: unat_eq_0)
        with IH some(3,4) go show ?thesis
          by (intro conjI exI [of _ "?got @ got"]) (auto split: sum.splits option.splits)
      qed
    qed
  qed
qed

definition recv_reliable :: "('w, 'x) net_sys_scheme \<Rightarrow> tcp_stream \<Rightarrow> bool" where
  "recv_reliable K s \<longleftrightarrow> (\<forall>len w stored w'. net_recv K (stream_fd s) len 0 w \<noteq> ((-1, stored), w'))"

lemma reliable_read:
  "recv_reliable K s \<Longrightarrow> \<exists>n buf' w'. tcp_read K s buf w = (Inr n, buf', w')"
  by (auto simp: recv_reliable_def tcp_read_def recv_fd_def cvt_ssize_def split: prod.splits)

lemma read_head_finds:
  assumes c: "recv_contract K s pend" and "chunk \<noteq> []" and "recv_reliable K s"
    and "find_double_crlf (buf @ pend w) = Some p" and "p + 3 \<le> unat (max_header_bytes lim)"
  shows "\<exists>buf' chunk' w'. read_head K s lim chunk buf w = (Inr (Some (p, buf')), chunk', w')"
  using assms
proof (induction K s lim chunk buf w rule: read_head.induct)
  case (1 K s lim chunk buf w)
  show ?case
  proof (cases "find_double_crlf buf")
    case (Some q)
    with "1.prems"(4) find_double_crlf_append [OF Some, of "pend w"] show ?thesis
      by (simp add: read_head.simps [of K s lim chunk buf])
  next
    case None
    then have len: "length buf < p + 4"
      using find_double_crlf_prefix [OF "1.prems"(4)] by fastforce
    obtain n chunk1 w1 where rd: "tcp_read K s chunk w = (Inr n, chunk1, w1)"
      using reliable_read [OF "1.prems"(3)] by blast
    note some = tcp_source.recv_some [OF "1.prems"(1) rd]
    have "n \<noteq> 0"
      using tcp_source.recv_eof [OF "1.prems"(1) _ "1.prems"(2)] rd "1.prems"(4) None by fastforce
    moreover have "\<not> unat (max_header_bytes lim) < length buf" using len "1.prems"(5) by simp
    moreover have "chunk1 \<noteq> []" using some(4) "1.prems"(2) by auto
    moreover have "find_double_crlf ((buf @ take (unat n) chunk1) @ pend w1) = Some p"
      using "1.prems"(4) some(3) by simp
    ultimately show ?thesis
      using "1.IH" [OF None _ rd [symmetric] refl refl _ some(1)] None rd some(1) "1.prems"
      by (simp add: read_head.simps [of K s lim chunk buf])
  qed
qed

lemma read_body_contract:
  assumes c: "recv_contract K s pend" and "chunk \<noteq> []"
    and "read_body K s cl chunk body w = (r, w')"
  shows "r \<noteq> Inl Panic \<and> (recv_reliable K s \<longrightarrow> (\<exists>b. r = Inr b)) \<and>
    (\<exists>got. pend w = got @ pend w' \<and>
       length (body @ got) \<le> max (length body) (unat cl + length chunk) \<and>
       (case r of
          Inr body' \<Rightarrow> body' = body @ got \<and> (unat cl \<le> length body' \<or> pend w' = [])
        | Inl _ \<Rightarrow> True))"
  using assms
proof (induction K s cl chunk body w arbitrary: r w' rule: read_body.induct)
  case (1 K s cl chunk body w)
  show ?case
  proof (cases "length body < unat cl")
    case False
    with "1.prems" show ?thesis by (auto simp: read_body.simps [of K s cl chunk body])
  next
    case go: True
    obtain res chunk1 w1 where rd: "tcp_read K s chunk w = (res, chunk1, w1)"
      by (cases "tcp_read K s chunk w")
    show ?thesis
    proof (cases res)
      case (Inl e)
      moreover have "\<not> recv_reliable K s"
        using reliable_read [of K s chunk w] rd Inl by auto
      ultimately show ?thesis
        using "1.prems" go rd tcp_source.recv_err [OF "1.prems"(1)]
        by (auto simp: read_body.simps [of K s cl chunk body])
    next
      case (Inr n)
      note some = tcp_source.recv_some [OF "1.prems"(1) rd [unfolded Inr]]
      have ne: "chunk1 \<noteq> []" using some(4) "1.prems"(2) by auto
      show ?thesis
      proof (cases "n = 0")
        case True
        with "1.prems" go rd Inr some tcp_source.recv_eof [OF "1.prems"(1) _ "1.prems"(2)]
        show ?thesis by (auto simp: read_body.simps [of K s cl chunk body])
      next
        case False
        let ?got = "take (unat n) chunk1"
        have "read_body K s cl chunk1 (body @ ?got) w1 = (r, w')"
          using "1.prems" go rd Inr False some(1)
          by (simp add: read_body.simps [of K s cl chunk body])
        from "1.IH" [OF go rd [symmetric] Inr refl False some(1) "1.prems"(1) ne this]
        obtain got where IH: "r \<noteq> Inl Panic" "recv_reliable K s \<longrightarrow> (\<exists>b. r = Inr b)"
          "pend w1 = got @ pend w'"
          "length ((body @ ?got) @ got) \<le> max (length (body @ ?got)) (unat cl + length chunk1)"
          "case r of
            Inr body' \<Rightarrow> body' = (body @ ?got) @ got \<and> (unat cl \<le> length body' \<or> pend w' = [])
          | Inl _ \<Rightarrow> True"
          by blast
        have "length ?got \<le> length chunk"
          using some(2) tcp_source.recv_ok [OF "1.prems"(1) rd [unfolded Inr]] by simp
        with IH some(3,4) go show ?thesis
          by (intro conjI exI [of _ "?got @ got"]) (auto split: sum.splits)
      qed
    qed
  qed
qed

section \<open>Whole requests\<close>

text \<open>A request as a client writes it, and the requests that survive the way.\<close>

definition request_line :: "request \<Rightarrow> string" where
  "request_line req = rq_method req @ '' '' @ rq_target req @ '' '' @ rq_version req"

definition request_head :: "request \<Rightarrow> string" where
  "request_head req = head_of (request_line req) (rq_headers req)"

definition render_request :: "request \<Rightarrow> u8 list" where
  "render_request req = bytes_of (request_head req) @ double_crlf @ rq_body req"

definition wire_request :: "limits \<Rightarrow> request \<Rightarrow> bool" where
  "wire_request lim req \<longleftrightarrow>
     (\<forall>x \<in> {rq_method req, rq_target req, rq_version req}.
        CR \<notin> set x \<and> CHR '' '' \<notin> set x \<and> str_valid x) \<and>
     (\<forall>h \<in> set (rq_headers req). sendable h) \<and>
     content_length (rq_headers req) = of_nat (length (rq_body req)) \<and>
     length (rq_body req) \<le> unat (max_body_bytes lim)"

lemma wire_request_head:
  assumes "wire_request lim req"
  shows "find_double_crlf (render_request req @ rest) = Some (length (request_head req))"
    and "from_utf8 (bytes_of (request_head req)) = Some (request_head req)"
    and "parse_head (request_head req) =
      Inr (rq_method req, rq_target req, rq_version req, rq_headers req)"
proof -
  have "CR \<notin> set (request_line req)" using assms by (auto simp: wire_request_def request_line_def)
  moreover have "str_valid '' ''" by (rule str_valid_ascii) simp
  then have "str_valid (request_line req)"
    using assms unfolding wire_request_def request_line_def by (blast intro: str_valid_append)
  moreover have "\<forall>h \<in> set (rq_headers req). sendable h" using assms by (simp add: wire_request_def)
  ultimately have reads:
    "find_double_crlf (bytes_of (request_head req) @ double_crlf @ xs) = Some (length (request_head req))"
    "from_utf8 (bytes_of (request_head req)) = Some (request_head req)"
    "split_crlf (request_head req) = request_line req # map header_line (rq_headers req)"
    "parse_headers (map header_line (rq_headers req)) [] = Inr (rq_headers req)" for xs
    unfolding request_head_def by (rule head_of_reads)+
  show "find_double_crlf (render_request req @ rest) = Some (length (request_head req))"
    using reads(1) [of "rq_body req @ rest"] by (simp add: render_request_def)
  show "from_utf8 (bytes_of (request_head req)) = Some (request_head req)" by (rule reads)
  have "split_char (CHR '' '') (request_line req) = [rq_method req, rq_target req, rq_version req]"
    using assms by (simp add: wire_request_def request_line_def str_simps)
  with reads(3,4) show "parse_head (request_head req) =
      Inr (rq_method req, rq_target req, rq_version req, rq_headers req)"
    by (simp add: parse_head_def)
qed

lemma take_render: "take (length (request_head req)) (render_request req @ rest) = bytes_of (request_head req)"
  and drop_render: "drop (length (request_head req) + 4) (render_request req @ rest) = rq_body req @ rest"
  by (simp_all add: render_request_def double_crlf_def)

text \<open>Once the head has been found, the rest follows from the head and what was over-read.\<close>

lemma read_request_from_head:
  assumes c: "recv_contract K s pend" and rel: "recv_reliable K s" and wire: "wire_request lim req"
    and rh: "read_head K s lim (replicate READ_CHUNK 0) [] w =
      (Inr (Some (length (request_head req), buf)), chunk, w1)"
    and buf: "buf @ pend w1 = render_request req @ rest" and "chunk \<noteq> []"
  shows "\<exists>w'. read_request K s lim w = (Inr (Some req), w') \<and> (\<exists>over. rest = over @ pend w')"
proof -
  let ?p = "length (request_head req)"
  let ?cl = "of_nat (length (rq_body req)) :: usize"
  have fit: "length (rq_body req) \<le> unat (max_body_bytes lim)"
    and cl: "content_length (rq_headers req) = ?cl"
    using wire by (auto simp: wire_request_def)
  have len: "unat ?cl = length (rq_body req)"
    using le_less_trans [OF fit unsigned_less] by (simp add: unat_of_nat)
  then have ok: "\<not> max_body_bytes lim < ?cl" using fit by (simp add: word_less_nat_alt)
  have "find_double_crlf buf = Some ?p"
    using read_head_contract [OF c _ rh] by (simp add: READ_CHUNK_def)
  then have p: "?p + 4 \<le> length buf" by (rule find_double_crlf_le)
  have head: "take ?p buf = bytes_of (request_head req)"
    using take_render [of req rest] p unfolding buf [symmetric] by simp
  have tail: "drop (?p + 4) buf @ pend w1 = rq_body req @ rest"
    using drop_render [of req rest] p unfolding buf [symmetric] by simp
  obtain r w2 where rb: "read_body K s ?cl chunk (drop (?p + 4) buf) w1 = (r, w2)" by fastforce
  from read_body_contract [OF c \<open>chunk \<noteq> []\<close> rb] rel len obtain body got where
    r: "r = Inr body" "body = drop (?p + 4) buf @ got" and got: "pend w1 = got @ pend w2"
    and enough: "length (rq_body req) \<le> length body \<or> pend w2 = []"
    by fastforce
  have all: "body @ pend w2 = rq_body req @ rest" using tail r(2) got by simp
  have n: "length (rq_body req) \<le> length body"
    using enough arg_cong [OF all, of length] by auto
  have "take (length (rq_body req)) body = rq_body req"
    using arg_cong [OF all, of "take (length (rq_body req))"] n by simp
  moreover have "rest = drop (length (rq_body req)) body @ pend w2"
    using arg_cong [OF all, of "drop (length (rq_body req))"] n by simp
  ultimately show ?thesis
    using rh p head wire_request_head(2,3) [OF wire] cl ok rb r(1) len
    by (intro exI [of _ w2]) (auto simp: read_request_def Let_def)
qed

lemma read_head_start:
  assumes "recv_contract K s pend"
    and "read_head K s lim (replicate READ_CHUNK 0) [] w = (res, chunk, w1)"
  shows "\<exists>buf0. res \<noteq> Inl Panic \<and> length chunk = READ_CHUNK \<and> pend w = buf0 @ pend w1 \<and>
    length buf0 \<le> unat (max_header_bytes lim) + READ_CHUNK \<and>
    (res = Inr None \<longrightarrow> buf0 = [] \<and> pend w = []) \<and>
    (\<forall>p buf. res = Inr (Some (p, buf)) \<longrightarrow> buf = buf0 \<and> find_double_crlf buf0 = Some p)"
proof -
  have "replicate READ_CHUNK (0 :: u8) \<noteq> []" by (simp add: READ_CHUNK_def)
  from read_head_contract [OF assms(1) this assms(2)] obtain got where g: "pend w = got @ pend w1"
    "length ([] @ got) \<le> max (length ([] :: u8 list)) (unat (max_header_bytes lim) + length (replicate READ_CHUNK (0 :: u8)))"
    "case res of
       Inr (Some (p, buf')) \<Rightarrow> buf' = [] @ got \<and> find_double_crlf buf' = Some p
     | Inr None \<Rightarrow> ([] :: u8 list) = [] \<and> got = [] \<and> pend w = []
     | Inl _ \<Rightarrow> True"
    and "res \<noteq> Inl Panic" "length chunk = READ_CHUNK"
    unfolding length_replicate by blast
  then show ?thesis by (intro exI [of _ got]) auto
qed

lemma read_head_whole:
  assumes "recv_contract K s pend" and "recv_reliable K s" and "wire_request lim req"
    and "length (request_head req) + 3 \<le> unat (max_header_bytes lim)"
    and "pend w = render_request req @ rest"
  shows "\<exists>buf chunk w1.
    read_head K s lim (replicate READ_CHUNK 0) [] w =
      (Inr (Some (length (request_head req), buf)), chunk, w1) \<and>
    buf @ pend w1 = render_request req @ rest \<and> chunk \<noteq> []"
proof -
  let ?chunk = "replicate READ_CHUNK 0 :: u8 list"
  have ne: "?chunk \<noteq> []" by (simp add: READ_CHUNK_def)
  have "find_double_crlf ([] @ pend w) = Some (length (request_head req))"
    using wire_request_head(1) [OF assms(3)] assms(5) by simp
  from read_head_finds [OF assms(1) ne assms(2) this assms(4)] obtain buf chunk' w1 where
    rh: "read_head K s lim ?chunk [] w = (Inr (Some (length (request_head req), buf)), chunk', w1)"
    by blast
  from read_head_contract [OF assms(1) ne rh] have "length chunk' = length ?chunk"
    "buf @ pend w1 = render_request req @ rest"
    using assms(5) by auto
  moreover from this(1) have "chunk' \<noteq> []" using ne by auto
  ultimately show ?thesis using rh by blast
qed

lemma read_request_no_panic:
  assumes "recv_contract K s pend"
  shows "fst (read_request K s lim w) \<noteq> Inl Panic"
proof -
  obtain res chunk w1 where rh: "read_head K s lim (replicate READ_CHUNK 0) [] w = (res, chunk, w1)"
    by (cases "read_head K s lim (replicate READ_CHUNK 0) [] w")
  from read_head_start [OF assms rh] have h: "res \<noteq> Inl Panic" "length chunk = READ_CHUNK"
    "\<And>p buf. res = Inr (Some (p, buf)) \<Longrightarrow> find_double_crlf buf = Some p" by blast+
  have "chunk \<noteq> []" using h(2) by (auto simp: READ_CHUNK_def)
  then have b: "fst (read_body K s cl chunk body w1) \<noteq> Inl Panic" for cl body
    using read_body_contract [OF assms, of chunk cl body w1] by (metis prod.collapse)
  have body: "fst (case read_body K s cl chunk body w1 of
      (Inl e, w2) \<Rightarrow> (Inl e, w2) | (Inr x, w2) \<Rightarrow> (Inr (F x), w2)) \<noteq> Inl Panic"
    for cl body and F :: "u8 list \<Rightarrow> request option"
    using b [of cl body] by (auto split: prod.split sum.split)
  show ?thesis
  proof (cases res)
    case (Inr found)
    show ?thesis
    proof (cases found)
      case (Some pb)
      then obtain p buf where res: "res = Inr (Some (p, buf))" using Inr by (cases pb) simp
      then have "p + 4 \<le> length buf" by (intro find_double_crlf_le h(3))
      then show ?thesis
        by (simp add: read_request_def rh res Let_def body split: option.split sum.split prod.split)
    qed (simp add: read_request_def rh Inr)
  qed (use h(1) in \<open>simp add: read_request_def rh\<close>)
qed

text \<open>
  What a peer can send that is no request: bytes without a blank line, a head beyond the
  limit and one chunk, a head that is not UTF-8 or does not parse, a body announced too long.
\<close>

definition refused :: "limits \<Rightarrow> u8 list \<Rightarrow> bool" where
  "refused lim bytes \<longleftrightarrow>
     (case find_double_crlf bytes of
        None \<Rightarrow> bytes \<noteq> []
      | Some p \<Rightarrow>
          unat (max_header_bytes lim) + READ_CHUNK < p + 4 \<or>
          (case from_utf8 (take p bytes) of
             None \<Rightarrow> True
           | Some head \<Rightarrow>
               (case parse_head head of
                  Inl _ \<Rightarrow> True
                | Inr (_, _, _, hs) \<Rightarrow> max_body_bytes lim < content_length hs)))"

lemma read_request_refused:
  assumes "recv_contract K s pend" and "refused lim (pend w)"
  shows "\<exists>e w1. read_request K s lim w = (Inl (Fail e), w1)"
proof -
  let ?chunk = "replicate READ_CHUNK 0 :: u8 list"
  obtain res chunk w1 where rh: "read_head K s lim ?chunk [] w = (res, chunk, w1)"
    by (cases "read_head K s lim ?chunk [] w")
  from read_head_start [OF assms(1) rh] obtain buf0 where
    h: "res \<noteq> Inl Panic" "pend w = buf0 @ pend w1"
    "length buf0 \<le> unat (max_header_bytes lim) + READ_CHUNK"
    and hr: "res = Inr None \<Longrightarrow> pend w = []"
    "\<And>p buf. res = Inr (Some (p, buf)) \<Longrightarrow> buf = buf0 \<and> find_double_crlf buf0 = Some p"
    by blast
  show ?thesis
  proof (cases res)
    case (Inl e)
    with h(1) obtain e' where "e = Fail e'" by (cases e) auto
    with Inl rh show ?thesis by (simp add: read_request_def)
  next
    case (Inr found)
    show ?thesis
    proof (cases found)
      case None
      with hr(1) Inr have "pend w = []" by simp
      with assms(2) show ?thesis by (simp add: refused_def find_double_crlf_def windows_def double_crlf_def)
    next
      case (Some pb)
      then obtain p where res: "res = Inr (Some (p, buf0))" and p: "find_double_crlf buf0 = Some p"
        using Inr hr(2) by (cases pb) auto
      have le: "p + 4 \<le> length buf0" by (rule find_double_crlf_le [OF p])
      have "find_double_crlf (pend w) = Some p"
        unfolding h(2) using p by (rule find_double_crlf_append)
      moreover have "take p (pend w) = take p buf0" using le h(2) by simp
      ultimately show ?thesis
        using assms(2) res rh le h(3)
        by (auto simp: refused_def read_request_def Let_def split: option.splits sum.splits)
    qed
  qed
qed

text \<open>What a read leaves alone, reading a request leaves alone.\<close>

lemma read_head_keeps:
  assumes "\<And>buf w r buf' w'. tcp_read K s buf w = (r, buf', w') \<Longrightarrow> obs w' = obs w"
  shows "obs (snd (snd (read_head K s lim chunk buf w))) = obs w"
  using assms
proof (induction K s lim chunk buf w rule: read_head.induct)
  case (1 K s lim chunk buf w)
  obtain res chunk1 w1 where rd: "tcp_read K s chunk w = (res, chunk1, w1)"
    by (cases "tcp_read K s chunk w")
  note IH = "1.IH" [OF _ _ rd [symmetric] _ refl _ _ "1.prems"]
  show ?case
    using IH rd "1.prems" [OF rd]
    by (auto simp: read_head.simps [of K s lim chunk buf] split: option.splits sum.splits)
qed

lemma read_body_keeps:
  assumes "\<And>buf w r buf' w'. tcp_read K s buf w = (r, buf', w') \<Longrightarrow> obs w' = obs w"
  shows "obs (snd (read_body K s cl chunk body w)) = obs w"
  using assms
proof (induction K s cl chunk body w rule: read_body.induct)
  case (1 K s cl chunk body w)
  obtain res chunk1 w1 where rd: "tcp_read K s chunk w = (res, chunk1, w1)"
    by (cases "tcp_read K s chunk w")
  note IH = "1.IH" [OF _ rd [symmetric] _ refl _ _ "1.prems"]
  show ?case
    using IH rd "1.prems" [OF rd]
    by (auto simp: read_body.simps [of K s cl chunk body] split: option.splits sum.splits)
qed

lemma read_request_keeps:
  assumes keeps: "\<And>buf w r buf' w'. tcp_read K s buf w = (r, buf', w') \<Longrightarrow> obs w' = obs w"
  shows "obs (snd (read_request K s lim w)) = obs w"
proof -
  let ?chunk = "replicate READ_CHUNK 0 :: u8 list"
  obtain res chunk w1 where rh: "read_head K s lim ?chunk [] w = (res, chunk, w1)"
    by (cases "read_head K s lim ?chunk [] w")
  have o1: "obs w1 = obs w"
    using read_head_keeps [of K s obs lim ?chunk "[]" w, OF keeps] rh by simp
  have o2: "obs w2 = obs w" if "read_body K s cl chunk body w1 = (r, w2)" for cl body r w2
    using read_body_keeps [of K s obs cl chunk body w1, OF keeps] that o1 by simp
  show ?thesis
    by (auto simp: read_request_def rh Let_def o1 dest: o2
        split: sum.split option.split prod.split)
qed

section \<open>Properties of reading\<close>

text \<open>
  C1: a well-formed request that fits the limits is read back exactly, however the
  connection cuts its bytes into pieces and whatever follows it: method, target, version,
  all header fields in order and the whole body; of what follows, only bytes that came with
  the last piece are consumed.
\<close>

theorem request_read_under_any_chunking:
  assumes "recv_contract K s pend" and "recv_reliable K s" and "wire_request lim req"
    and "length (request_head req) + 3 \<le> unat (max_header_bytes lim)"
    and "pend w = render_request req @ rest"
  shows "\<exists>w'. read_request K s lim w = (Inr (Some req), w') \<and> (\<exists>over. rest = over @ pend w')"
  using read_head_whole [OF assms] read_request_from_head [OF assms(1,2,3)] by blast

lemma read_request_after_head:
  assumes "read_head K s lim (replicate READ_CHUNK 0) [] w = (Inr (Some (p, buf0)), chunk, w1)"
    and "p + 4 \<le> length buf0" and "read_request K s lim w = (r, w')"
  shows "(\<exists>e. r = Inl (Fail e) \<and> w' = w1) \<or>
    (\<exists>head m t v hs r1. from_utf8 (take p buf0) = Some head \<and> parse_head head = Inr (m, t, v, hs) \<and>
      unat (content_length hs) \<le> unat (max_body_bytes lim) \<and>
      read_body K s (content_length hs) chunk (drop (p + 4) buf0) w1 = (r1, w') \<and>
      r = (case r1 of Inl e \<Rightarrow> Inl e | Inr body \<Rightarrow> Inr (Some \<lparr>rq_method = m, rq_target = t,
        rq_version = v, rq_headers = hs, rq_body = take (unat (content_length hs)) body\<rparr>)))"
  using assms
  by (auto simp: read_request_def Let_def word_less_nat_alt not_less
      split: option.splits sum.splits prod.splits if_splits)

text \<open>What reading the body adds to what was read with the head.\<close>

lemma read_request_found:
  assumes "recv_contract K s pend"
    and "read_head K s lim (replicate READ_CHUNK 0) [] w = (Inr (Some (p, buf0)), chunk, w1)"
    and "read_request K s lim w = (r, w')"
    and h: "length chunk = READ_CHUNK" "pend w = buf0 @ pend w1"
      "length buf0 \<le> unat (max_header_bytes lim) + READ_CHUNK" "find_double_crlf buf0 = Some p"
  shows "r \<noteq> Inl Panic \<and>
    (\<exists>got. pend w = got @ pend w' \<and>
      length got \<le> unat (max_header_bytes lim) + unat (max_body_bytes lim) + 2 * READ_CHUNK \<and>
      (case r of
         Inl _ \<Rightarrow> True
       | Inr None \<Rightarrow> got = [] \<and> pend w = []
       | Inr (Some req) \<Rightarrow>
           \<exists>p head. find_double_crlf got = Some p \<and> from_utf8 (take p got) = Some head \<and>
             parse_head head = Inr (rq_method req, rq_target req, rq_version req, rq_headers req) \<and>
             rq_body req = take (unat (content_length (rq_headers req))) (drop (p + 4) got) \<and>
             length (rq_body req) \<le> unat (max_body_bytes lim) \<and>
             (length (rq_body req) = unat (content_length (rq_headers req)) \<or> pend w' = [])))"
proof -
  have p: "p + 4 \<le> length buf0" using h(4) by (rule find_double_crlf_le)
  have "chunk \<noteq> []" using h(1) by (auto simp: READ_CHUNK_def)
  from read_request_after_head [OF assms(2) p assms(3)] show ?thesis
  proof (elim disjE exE conjE)
    fix e assume "r = Inl (Fail e)" "w' = w1"
    with h show ?thesis by (intro conjI exI [of _ buf0]) auto
  next
    fix head m t v hs r1
    assume go: "from_utf8 (take p buf0) = Some head" "parse_head head = Inr (m, t, v, hs)"
      and fit: "unat (content_length hs) \<le> unat (max_body_bytes lim)"
      and rb: "read_body K s (content_length hs) chunk (drop (p + 4) buf0) w1 = (r1, w')"
      and r: "r = (case r1 of Inl e \<Rightarrow> Inl e | Inr body \<Rightarrow> Inr (Some \<lparr>rq_method = m,
        rq_target = t, rq_version = v, rq_headers = hs, rq_body = take (unat (content_length hs)) body\<rparr>))"
    from read_body_contract [OF assms(1) \<open>chunk \<noteq> []\<close> rb] obtain more where
      b: "r1 \<noteq> Inl Panic" "pend w1 = more @ pend w'"
      "length (drop (p + 4) buf0 @ more) \<le>
         max (length (drop (p + 4) buf0)) (unat (content_length hs) + length chunk)"
      "case r1 of
        Inr body \<Rightarrow> body = drop (p + 4) buf0 @ more \<and>
          (unat (content_length hs) \<le> length body \<or> pend w' = [])
      | Inl _ \<Rightarrow> True"
      by blast
    have "pend w = (buf0 @ more) @ pend w'" using h(2) b(2) by simp
    moreover have "length (buf0 @ more) \<le>
        unat (max_header_bytes lim) + unat (max_body_bytes lim) + 2 * READ_CHUNK"
      using b(3) h(1,3) fit p by (simp add: max_def split: if_splits)
    moreover have "find_double_crlf (buf0 @ more) = Some p"
      using h(4) by (rule find_double_crlf_append)
    ultimately show ?thesis
      using b(1,4) go fit p unfolding r
      by (cases r1) (auto intro!: exI [of _ "buf0 @ more"] exI [of _ p] exI [of _ head])
  qed
qed

text \<open>
  C2: whatever a peer sends and however its reads fail, \<^verbatim>\<open>read_request\<close> ends without a panic,
  having taken at most the two limits and two read chunks from the connection. \<^verbatim>\<open>Ok(None)\<close>
  means nothing was sent. A returned request is what the bytes say: its head is the text
  before the first blank line, its body the announced number of bytes after it, or fewer
  only because the peer closed, and within the body limit.
\<close>

theorem read_request_total_and_bounded:
  assumes "recv_contract K s pend" and "read_request K s lim w = (r, w')"
  shows "r \<noteq> Inl Panic \<and>
    (\<exists>got. pend w = got @ pend w' \<and>
      length got \<le> unat (max_header_bytes lim) + unat (max_body_bytes lim) + 2 * READ_CHUNK \<and>
      (case r of
         Inl _ \<Rightarrow> True
       | Inr None \<Rightarrow> got = [] \<and> pend w = []
       | Inr (Some req) \<Rightarrow>
           \<exists>p head. find_double_crlf got = Some p \<and> from_utf8 (take p got) = Some head \<and>
             parse_head head = Inr (rq_method req, rq_target req, rq_version req, rq_headers req) \<and>
             rq_body req = take (unat (content_length (rq_headers req))) (drop (p + 4) got) \<and>
             length (rq_body req) \<le> unat (max_body_bytes lim) \<and>
             (length (rq_body req) = unat (content_length (rq_headers req)) \<or> pend w' = [])))"
proof -
  let ?chunk = "replicate READ_CHUNK 0 :: u8 list"
  obtain res chunk w1 where rh: "read_head K s lim ?chunk [] w = (res, chunk, w1)"
    by (cases "read_head K s lim ?chunk [] w")
  from read_head_start [OF assms(1) rh] obtain buf0 where
    h: "length chunk = READ_CHUNK" "pend w = buf0 @ pend w1"
    "length buf0 \<le> unat (max_header_bytes lim) + READ_CHUNK"
    and hr: "res \<noteq> Inl Panic" "res = Inr None \<Longrightarrow> buf0 = [] \<and> pend w = []"
    "\<And>p buf. res = Inr (Some (p, buf)) \<Longrightarrow> buf = buf0 \<and> find_double_crlf buf0 = Some p"
    by blast
  show ?thesis
  proof (cases res)
    case (Inl e)
    with assms(2) rh h hr(1) show ?thesis
      by (intro conjI exI [of _ buf0]) (auto simp: read_request_def)
  next
    case (Inr found)
    show ?thesis
    proof (cases found)
      case None
      with assms(2) rh h hr(2) Inr show ?thesis
        by (intro conjI exI [of _ buf0]) (auto simp: read_request_def)
    next
      case (Some pb)
      then obtain p where res: "res = Inr (Some (p, buf0))" and p: "find_double_crlf buf0 = Some p"
        using Inr hr(3) by (cases pb) auto
      from assms(1) rh [unfolded res] assms(2) h p show ?thesis by (rule read_request_found)
    qed
  qed
qed

text \<open>
  A connection for the examples: its state is what the peer has sent and not yet been read,
  and what it was sent. At most \<open>k\<close> bytes are read at a time and two are written.
\<close>

definition drip_net :: "nat \<Rightarrow> (u8 list \<times> u8 list) net_sys" where
  "drip_net k = inert_net
     \<lparr>net_recv := (\<lambda>_ len _ (i, out).
        ((of_nat (min k (min len (length i))), take (min k len) i), (drop (min k len) i, out))),
      net_send := (\<lambda>_ buf _ (i, out). (of_nat (min 2 (length buf)), (i, out @ take 2 buf))),
      net_shutdown := (\<lambda>_ _ w. (0, w))\<rparr>"

lemma drip_recv:
  "net_recv (drip_net k) fd len fl (i, out) =
     ((of_nat (min k (min len (length i))), take (min k len) i), (drop (min k len) i, out))"
  by (simp add: drip_net_def)

lemma drip_recv_contract:
  assumes "0 < k" and "k \<le> 4096"
  shows "recv_contract (drip_net k) s fst"
  unfolding recv_contract_def
proof (intro allI impI)
  fix len w ret stored w'
  assume r: "net_recv (drip_net k) (stream_fd s) len 0 w = ((ret, stored), w')"
  obtain i out where w: "w = (i, out)" by (cases w)
  from r w have ret: "ret = of_nat (min k (min len (length i)))"
    and st: "stored = take (min k len) i" and w': "w' = (drop (min k len) i, out)"
    by (simp_all add: drip_recv)
  show "if ret = -1 then fst w' = fst w
    else unat ret = length stored \<and> length stored \<le> len \<and> fst w = stored @ fst w' \<and>
      (stored = [] \<longrightarrow> len = 0 \<or> fst w = [])"
    unfolding ret st w w' using assms(1)
    by (simp only: of_nat_min_chunk [OF assms(2)] if_False) auto
qed

lemma drip_reliable:
  assumes "k \<le> 4096"
  shows "recv_reliable (drip_net k) s"
  unfolding recv_reliable_def
proof (intro allI notI)
  fix len w stored w'
  assume "net_recv (drip_net k) (stream_fd s) len 0 w = ((-1, stored), w')"
  then have "(of_nat (min k (min len (length (fst w)))) :: usize) = -1"
    by (cases w) (simp add: drip_recv)
  then show False by (simp only: of_nat_min_chunk [OF assms])
qed

definition sample_request :: request where
  "sample_request =
     \<lparr>rq_method = ''POST'', rq_target = ''/x?y=1'', rq_version = ''HTTP/1.1'',
      rq_headers = [(''Content-Length'', dec 2)], rq_body = [7, 9]\<rparr>"

definition sample_limits :: limits where
  "sample_limits =
     \<lparr>max_header_bytes = DEFAULT_MAX_HEADER_BYTES, max_body_bytes = DEFAULT_MAX_BODY_BYTES\<rparr>"

lemma sample_limit_values:
  "unat (max_header_bytes sample_limits) = 65536" "unat (max_body_bytes sample_limits) = 8388608"
  by (simp_all add: sample_limits_def DEFAULT_MAX_HEADER_BYTES_def
      DEFAULT_MAX_BODY_BYTES_def)

lemma dec_2: "dec 2 = ''2''"
  by code_simp

lemma sample_head: "request_head sample_request =
    ''POST /x?y=1 HTTP/1.1'' @ [CR, LF] @ ''Content-Length: 2''"
  by (simp add: request_head_def head_of_def request_line_def sample_request_def header_line_def dec_2)

lemma sample_wire: "wire_request sample_limits sample_request"
proof -
  have "content_length [(''Content-Length'', dec 2)] = 2"
    using parse_usize_dec [of 2] by (simp add: content_length_def content_length_ci)
  moreover have "str_valid ''POST''" "str_valid ''/x?y=1''" "str_valid ''HTTP/1.1''"
    by (rule str_valid_ascii; simp)+
  ultimately show ?thesis
    unfolding wire_request_def sample_limit_values
    by (simp add: sample_request_def own_sendable)
qed

theorem request_read_under_any_chunking_witness:
  "\<exists>w'. read_request (drip_net 3) \<lparr>stream_fd = 4\<rparr> sample_limits
     (render_request sample_request @ [1], []) = (Inr (Some sample_request), w')"
proof -
  have c: "recv_contract (drip_net 3) \<lparr>stream_fd = 4\<rparr> fst" "recv_reliable (drip_net 3) \<lparr>stream_fd = 4\<rparr>"
    by (simp_all add: drip_recv_contract drip_reliable)
  have "length (request_head sample_request) + 3 \<le> unat (max_header_bytes sample_limits)"
    by (simp add: sample_limit_values sample_head)
  from request_read_under_any_chunking [OF c sample_wire this,
      of "(render_request sample_request @ [1], [])" "[1]"]
  show ?thesis by fastforce
qed

theorem read_request_total_and_bounded_witness:
  "\<exists>r w' got. read_request (drip_net 3) \<lparr>stream_fd = 4\<rparr> sample_limits ([71, 69], []) = (r, w') \<and>
     r \<noteq> Inl Panic \<and> [71, 69] = got @ fst w'"
proof -
  obtain r w' where r: "read_request (drip_net 3) \<lparr>stream_fd = 4\<rparr> sample_limits ([71, 69], []) = (r, w')"
    by (rule prod.exhaust)
  have "recv_contract (drip_net 3) \<lparr>stream_fd = 4\<rparr> fst" by (simp add: drip_recv_contract)
  from read_request_total_and_bounded [OF this r] r show ?thesis
    by (metis fst_conv)
qed

text \<open>
  C34: the header limit is looked at between reads only. On a connection that keeps working, a
  request whose head arrives with the first read (so within 4096 bytes), with as much of the
  body as it may, and whose body fits its own limit, is accepted and read back even when the
  head is longer than the configured maximum, whatever that is.
\<close>

theorem head_limit_is_checked_between_reads:
  assumes "recv_contract K s pend" and "recv_reliable K s" and "wire_request lim req"
    and "net_recv K (stream_fd s) READ_CHUNK 0 w = ((n, got), w1)"
    and "length (request_head req) + 4 \<le> length got" and "pend w = render_request req @ rest"
  shows "\<exists>w'. read_request K s lim w = (Inr (Some req), w')"
proof -
  let ?chunk = "replicate READ_CHUNK 0 :: u8 list"
  let ?p = "length (request_head req)"
  have n: "n \<noteq> -1" using assms(2,4) by (auto simp: recv_reliable_def)
  with assms(1,4) have len: "unat n = length got" "length got \<le> READ_CHUNK"
    and pend: "pend w = got @ pend w1"
    by (fastforce simp: recv_contract_def)+
  let ?chunk1 = "overwrite ?chunk got"
  have rd: "tcp_read K s ?chunk w = (Inr n, ?chunk1, w1)"
    using assms(4) n by (simp add: tcp_read_def recv_fd_def cvt_ssize_def)
  have "find_double_crlf (got @ pend w1) = Some ?p"
    using wire_request_head(1) [OF assms(3), of rest] assms(6) pend by simp
  then have found: "find_double_crlf got = Some ?p" by (rule find_double_crlf_prefix [OF _ assms(5)])
  have "got \<noteq> []" using assms(5) by auto
  then have "n \<noteq> 0" using len(1) by auto
  moreover have "slice_to (unat n) ?chunk1 = Some got"
    using len by (simp flip: len(1)) (simp add: len)
  ultimately have "read_head K s lim ?chunk [] w = (Inr (Some (?p, got)), ?chunk1, w1)"
    using rd found by (simp add: read_head.simps)
  from read_request_from_head [OF assms(1,2,3) this, of rest] assms(6) pend
  show ?thesis by (auto simp: READ_CHUNK_def simp flip: length_greater_0_conv)
qed

theorem head_limit_is_checked_between_reads_witness:
  "\<exists>w'. read_request (drip_net 4096) \<lparr>stream_fd = 4\<rparr> \<lparr>max_header_bytes = 10, max_body_bytes = 5\<rparr>
     (render_request sample_request, []) = (Inr (Some sample_request), w') \<and>
   10 < length (request_head sample_request)"
proof -
  let ?lim = "\<lparr>max_header_bytes = 10, max_body_bytes = 5\<rparr>"
  have c: "recv_contract (drip_net 4096) \<lparr>stream_fd = 4\<rparr> fst" "recv_reliable (drip_net 4096) \<lparr>stream_fd = 4\<rparr>"
    by (simp_all add: drip_recv_contract drip_reliable)
  have len: "length (render_request sample_request) \<le> 4096"
    by (simp add: render_request_def sample_head double_crlf_def) (simp add: sample_request_def)
  have "wire_request ?lim sample_request"
    using sample_wire unfolding wire_request_def by (simp add: sample_request_def)
  moreover have "net_recv (drip_net 4096) (stream_fd \<lparr>stream_fd = 4\<rparr>) READ_CHUNK 0
      (render_request sample_request, []) =
    ((of_nat (length (render_request sample_request)), render_request sample_request), ([], []))"
    using len by (simp add: drip_recv READ_CHUNK_def)
  moreover have "length (request_head sample_request) + 4 \<le> length (render_request sample_request)"
    by (simp add: render_request_def double_crlf_def)
  ultimately show ?thesis
    using head_limit_is_checked_between_reads [OF c, of _ sample_request "(render_request sample_request, [])" _ _ _ "[]"]
    by (auto simp: sample_head)
qed

end
