(* ===== verification/Thread.thy ===== *)
theory Thread
  imports Errors
begin

text \<open>
  \<^verbatim>\<open>crates/ps5/src/thread.rs\<close>: threads, mutexes and condition variables over the pthread
  calls. The calls return their error code; they are the fields of the parameter record
  \<open>thread_sys\<close>. The result slot a thread shares with its join handle is an \<^verbatim>\<open>Arc\<close>: a
  reference-counted cell of the process heap, whose destructor's effect is recorded.

  The properties follow the slot through every interleaving of the thread and the owner of
  the handle, and the lock through its guards.
\<close>

section \<open>The system parameters of the thread code\<close>

type_synonym pthread = "64 word"       \<comment> \<open>the opaque \<^verbatim>\<open>pthread_t\<close>\<close>
type_synonym pthread_attr = "64 word"  \<comment> \<open>the contents of a \<^verbatim>\<open>pthread_attr_t\<close> slot; 0 is null\<close>
type_synonym pthread_slot = "64 word"  \<comment> \<open>the contents of a mutex or condvar slot; 0 is null\<close>

text \<open>
  \<open>'p\<close> is what \<^verbatim>\<open>pthread_create\<close> is handed as the new thread's argument. A call that writes
  through a pointer returns the new contents beside its code.
\<close>

record ('w, 'p) thread_sys =
  pt_create :: "pthread_attr option \<Rightarrow> 'p \<Rightarrow> 'w \<Rightarrow> (i32 \<times> pthread) \<times> 'w"
  pt_attr_init :: "pthread_attr \<Rightarrow> 'w \<Rightarrow> (i32 \<times> pthread_attr) \<times> 'w"
  pt_attr_setstacksize :: "pthread_attr \<Rightarrow> usize \<Rightarrow> 'w \<Rightarrow> (i32 \<times> pthread_attr) \<times> 'w"
  pt_attr_destroy :: "pthread_attr \<Rightarrow> 'w \<Rightarrow> i32 \<times> 'w"
  pt_join :: "pthread \<Rightarrow> 'w \<Rightarrow> i32 \<times> 'w"
  pt_detach :: "pthread \<Rightarrow> 'w \<Rightarrow> i32 \<times> 'w"
  pm_init :: "pthread_slot \<Rightarrow> 'w \<Rightarrow> (i32 \<times> pthread_slot) \<times> 'w"
  pm_lock :: "pthread_slot \<Rightarrow> 'w \<Rightarrow> i32 \<times> 'w"
  pm_unlock :: "pthread_slot \<Rightarrow> 'w \<Rightarrow> i32 \<times> 'w"
  pm_destroy :: "pthread_slot \<Rightarrow> 'w \<Rightarrow> i32 \<times> 'w"
  pc_init :: "pthread_slot \<Rightarrow> 'w \<Rightarrow> (i32 \<times> pthread_slot) \<times> 'w"
  pc_wait :: "pthread_slot \<Rightarrow> pthread_slot \<Rightarrow> 'w \<Rightarrow> i32 \<times> 'w"
  pc_signal :: "pthread_slot \<Rightarrow> 'w \<Rightarrow> i32 \<times> 'w"
  pc_broadcast :: "pthread_slot \<Rightarrow> 'w \<Rightarrow> i32 \<times> 'w"
  pc_destroy :: "pthread_slot \<Rightarrow> 'w \<Rightarrow> i32 \<times> 'w"
  PT_EINVAL :: i32

definition cvt_pthread :: "i32 \<Rightarrow> unit result" where
  "cvt_pthread rc = (if rc = 0 then Inr () else Inl (Os (Errno rc)))"

lemma cvt_pthread_simps [simp]:
  "cvt_pthread 0 = Inr ()"
  "rc \<noteq> 0 \<Longrightarrow> cvt_pthread rc = Inl (Os (Errno rc))"
  by (simp_all add: cvt_pthread_def)

section \<open>The shared result slot\<close>

record 'v shared =
  strong :: nat             \<comment> \<open>the \<^verbatim>\<open>Arc\<close>'s count of references\<close>
  slot :: "'v option"

text \<open>
  The process: its heap of \<^verbatim>\<open>Arc\<close> cells, the next free address, the values whose destructor
  has run because their cell was freed (in order), and the system state.
\<close>

record ('v, 'w) proc =
  cells :: "nat \<Rightarrow> 'v shared option"
  fresh :: nat
  dropped :: "'v list"
  os :: 'w

definition arc_new :: "('v, 'w) proc \<Rightarrow> nat \<times> ('v, 'w) proc" where
  "arc_new p =
     (fresh p, p\<lparr>cells := (cells p)(fresh p \<mapsto> \<lparr>strong = 1, slot = None\<rparr>), fresh := Suc (fresh p)\<rparr>)"

definition arc_clone :: "nat \<Rightarrow> ('v, 'w) proc \<Rightarrow> ('v, 'w) proc" where
  "arc_clone a p =
     (case cells p a of
        None \<Rightarrow> p
      | Some c \<Rightarrow> p\<lparr>cells := (cells p)(a \<mapsto> c\<lparr>strong := Suc (strong c)\<rparr>)\<rparr>)"

definition arc_drop :: "nat \<Rightarrow> ('v, 'w) proc \<Rightarrow> ('v, 'w) proc" where
  "arc_drop a p =
     (case cells p a of
        None \<Rightarrow> p
      | Some c \<Rightarrow>
          if strong c = 1
          then p\<lparr>cells := (cells p)(a := None),
                 dropped := dropped p @ (case slot c of None \<Rightarrow> [] | Some v \<Rightarrow> [v])\<rparr>
          else p\<lparr>cells := (cells p)(a \<mapsto> c\<lparr>strong := strong c - 1\<rparr>)\<rparr>)"

text \<open>\<^verbatim>\<open>*shared.slot.get() = Some(value)\<close> drops what the slot held before.\<close>

definition slot_store :: "nat \<Rightarrow> 'v \<Rightarrow> ('v, 'w) proc \<Rightarrow> ('v, 'w) proc" where
  "slot_store a v p =
     (case cells p a of
        None \<Rightarrow> p
      | Some c \<Rightarrow>
          p\<lparr>cells := (cells p)(a \<mapsto> c\<lparr>slot := Some v\<rparr>),
            dropped := dropped p @ (case slot c of None \<Rightarrow> [] | Some u \<Rightarrow> [u])\<rparr>)"

text \<open>\<^verbatim>\<open>(*self.shared.slot.get()).take()\<close>.\<close>

definition slot_take :: "nat \<Rightarrow> ('v, 'w) proc \<Rightarrow> 'v option \<times> ('v, 'w) proc" where
  "slot_take a p =
     (case cells p a of
        None \<Rightarrow> (None, p)
      | Some c \<Rightarrow> (slot c, p\<lparr>cells := (cells p)(a \<mapsto> c\<lparr>slot := None\<rparr>)\<rparr>))"

section \<open>Threads\<close>

record 'c packet =
  closure :: 'c
  packet_shared :: nat

text \<open>
  The entry point: call the closure (\<open>run\<close>; \<open>None\<close> is a closure that does not return), store
  its value, drop this thread's reference.
\<close>

definition trampoline ::
  "('c \<Rightarrow> 'w \<Rightarrow> ('v \<times> 'w) option) \<Rightarrow> 'c packet \<Rightarrow> ('v, 'w) proc \<Rightarrow> ('v, 'w) proc option" where
  "trampoline run pk p =
     (case run (closure pk) (os p) of
        None \<Rightarrow> None
      | Some (value, w') \<Rightarrow>
          Some (arc_drop (packet_shared pk) (slot_store (packet_shared pk) value (p\<lparr>os := w'\<rparr>))))"

record join_handle =
  handle :: pthread
  joined :: bool
  handle_shared :: nat

definition drop_join_handle ::
  "('w, 'p) thread_sys \<Rightarrow> join_handle \<Rightarrow> ('v, 'w) proc \<Rightarrow> ('v, 'w) proc" where
  "drop_join_handle T h p =
     arc_drop (handle_shared h)
       (if \<not> joined h then p\<lparr>os := snd (pt_detach T (handle h) (os p))\<rparr> else p)"

definition thread_join ::
  "('w, 'p) thread_sys \<Rightarrow> join_handle \<Rightarrow> ('v, 'w) proc \<Rightarrow> 'v result \<times> ('v, 'w) proc" where
  "thread_join T h p =
     (case pt_join T (handle h) (os p) of
        (rc, w1) \<Rightarrow>
          let h = h\<lparr>joined := True\<rparr> in
          then_or_drop (drop_join_handle T h) (cvt_pthread rc, p\<lparr>os := w1\<rparr>) (\<lambda>_ p1.
            case slot_take (handle_shared h) p1 of
              (val, p2) \<Rightarrow>
                (case val of
                   Some v \<Rightarrow> (Inr v, drop_join_handle T h p2)
                 | None \<Rightarrow> (Inl (Os (Errno (PT_EINVAL T))), drop_join_handle T h p2))))"

record builder =
  stack_size :: "usize option"

definition builder_new :: builder where
  "builder_new = \<lparr>stack_size = None\<rparr>"

definition builder_stack_size :: "builder \<Rightarrow> usize \<Rightarrow> builder" where
  "builder_stack_size b bytes = b\<lparr>stack_size := Some bytes\<rparr>"

definition create_thread ::
  "('w, 'p) thread_sys \<Rightarrow> usize option \<Rightarrow> 'p \<Rightarrow> 'w \<Rightarrow> (i32 \<times> pthread) \<times> 'w" where
  "create_thread T stack arg w =
     (case stack of
        None \<Rightarrow> pt_create T None arg w
      | Some bytes \<Rightarrow>
        (case pt_attr_init T 0 w of
           ((rc, attr), w1) \<Rightarrow>
             if rc \<noteq> 0 then ((rc, 0), w1)
             else (case pt_attr_setstacksize T attr bytes w1 of
               ((rc, attr), w2) \<Rightarrow>
                 if rc \<noteq> 0 then ((rc, 0), snd (pt_attr_destroy T attr w2))
                 else (case pt_create T (Some attr) arg w2 of
                   ((rc, h), w3) \<Rightarrow> ((rc, h), snd (pt_attr_destroy T attr w3))))))"

text \<open>
  \<open>drop_closure\<close> is the destructor of the closure's captures. A packet drops its fields in
  the order of their declaration.
\<close>

definition drop_packet ::
  "('c \<Rightarrow> 'w \<Rightarrow> 'w) \<Rightarrow> 'c packet \<Rightarrow> ('v, 'w) proc \<Rightarrow> ('v, 'w) proc" where
  "drop_packet drop_closure pk p =
     arc_drop (packet_shared pk) (p\<lparr>os := drop_closure (closure pk) (os p)\<rparr>)"

definition builder_spawn ::
  "('w, 'c packet) thread_sys \<Rightarrow> ('c \<Rightarrow> 'w \<Rightarrow> 'w) \<Rightarrow> builder \<Rightarrow> 'c \<Rightarrow> ('v, 'w) proc \<Rightarrow>
   join_handle result \<times> ('v, 'w) proc" where
  "builder_spawn T drop_closure b f p =
     (case arc_new p of
        (a, p1) \<Rightarrow>
          let p2 = arc_clone a p1; pk = \<lparr>closure = f, packet_shared = a\<rparr> in
          (case create_thread T (stack_size b) pk (os p2) of
             ((rc, h), w3) \<Rightarrow>
               let p3 = p2\<lparr>os := w3\<rparr> in
               if rc \<noteq> 0
               then (Inl (Os (Errno rc)), arc_drop a (drop_packet drop_closure pk p3))
               else (Inr \<lparr>handle = h, joined = False, handle_shared = a\<rparr>, p3)))"

definition thread_spawn ::
  "('w, 'c packet) thread_sys \<Rightarrow> ('c \<Rightarrow> 'w \<Rightarrow> 'w) \<Rightarrow> 'c \<Rightarrow> ('v, 'w) proc \<Rightarrow>
   join_handle result \<times> ('v, 'w) proc" where
  "thread_spawn T drop_closure f p = builder_spawn T drop_closure builder_new f p"

section \<open>Mutexes\<close>

text \<open>
  The lock functions are handed the address of the slot and act on the mutex its contents
  name. A guard borrows its mutex; it holds the slot, and the data is read and written in the
  mutex it borrows.
\<close>

record 'a mutex =
  mx_inner :: pthread_slot
  mx_data :: 'a

record guard =
  guard_inner :: pthread_slot

definition drop_mutex :: "('w, 'p) thread_sys \<Rightarrow> 'a mutex \<Rightarrow> 'w \<Rightarrow> 'w" where
  "drop_mutex T m w = snd (pm_destroy T (mx_inner m) w)"

definition mutex_new :: "('w, 'p) thread_sys \<Rightarrow> 'a \<Rightarrow> 'w \<Rightarrow> 'a mutex result \<times> 'w" where
  "mutex_new T d w =
     (let mutex = \<lparr>mx_inner = 0, mx_data = d\<rparr> in
      case pm_init T (mx_inner mutex) w of
        ((rc, inner'), w1) \<Rightarrow>
          let mutex = mutex\<lparr>mx_inner := inner'\<rparr> in
          then_or_drop (drop_mutex T mutex) (cvt_pthread rc, w1) (\<lambda>_ w2. (Inr mutex, w2)))"

definition mutex_lock :: "('w, 'p) thread_sys \<Rightarrow> 'a mutex \<Rightarrow> 'w \<Rightarrow> guard result \<times> 'w" where
  "mutex_lock T m w =
     (case pm_lock T (mx_inner m) w of
        (rc, w1) \<Rightarrow>
          and_then (cvt_pthread rc, w1) (\<lambda>_ w2. (Inr \<lparr>guard_inner = mx_inner m\<rparr>, w2)))"

definition guard_deref :: "'a mutex \<Rightarrow> 'a" where
  "guard_deref m = mx_data m"

definition guard_deref_mut :: "('a \<Rightarrow> 'a) \<Rightarrow> 'a mutex \<Rightarrow> 'a mutex" where
  "guard_deref_mut f m = m\<lparr>mx_data := f (mx_data m)\<rparr>"

definition drop_guard :: "('w, 'p) thread_sys \<Rightarrow> guard \<Rightarrow> 'w \<Rightarrow> 'w" where
  "drop_guard T g w = snd (pm_unlock T (guard_inner g) w)"

section \<open>Condition variables\<close>

record condvar =
  cv_inner :: pthread_slot

definition drop_condvar :: "('w, 'p) thread_sys \<Rightarrow> condvar \<Rightarrow> 'w \<Rightarrow> 'w" where
  "drop_condvar T c w = snd (pc_destroy T (cv_inner c) w)"

definition condvar_new :: "('w, 'p) thread_sys \<Rightarrow> 'w \<Rightarrow> condvar result \<times> 'w" where
  "condvar_new T w =
     (let cond = \<lparr>cv_inner = 0\<rparr> in
      case pc_init T (cv_inner cond) w of
        ((rc, inner'), w1) \<Rightarrow>
          let cond = cond\<lparr>cv_inner := inner'\<rparr> in
          then_or_drop (drop_condvar T cond) (cvt_pthread rc, w1) (\<lambda>_ w2. (Inr cond, w2)))"

definition condvar_wait ::
  "('w, 'p) thread_sys \<Rightarrow> condvar \<Rightarrow> guard \<Rightarrow> 'w \<Rightarrow> guard result \<times> 'w" where
  "condvar_wait T c g w =
     (let m = guard_inner g in
      case pc_wait T (cv_inner c) m w of
        (rc, w1) \<Rightarrow>
          if rc \<noteq> 0
          then (let g' = \<lparr>guard_inner = m\<rparr> in (Inl (Os (Errno rc)), drop_guard T g' w1))
          else (Inr \<lparr>guard_inner = m\<rparr>, w1))"

definition notify_one :: "('w, 'p) thread_sys \<Rightarrow> condvar \<Rightarrow> 'w \<Rightarrow> 'w" where
  "notify_one T c w = snd (pc_signal T (cv_inner c) w)"

definition notify_all :: "('w, 'p) thread_sys \<Rightarrow> condvar \<Rightarrow> 'w \<Rightarrow> 'w" where
  "notify_all T c w = snd (pc_broadcast T (cv_inner c) w)"

section \<open>What creating a thread leaves behind\<close>

lemma arc_simps [simp]:
  "arc_new p = (fresh p, p\<lparr>cells := (cells p)(fresh p \<mapsto> \<lparr>strong = 1, slot = None\<rparr>), fresh := Suc (fresh p)\<rparr>)"
  "cells p a = Some c \<Longrightarrow> arc_clone a p = p\<lparr>cells := (cells p)(a \<mapsto> c\<lparr>strong := Suc (strong c)\<rparr>)\<rparr>"
  "cells p a = Some c \<Longrightarrow> strong c = 1 \<Longrightarrow>
     arc_drop a p = p\<lparr>cells := (cells p)(a := None),
       dropped := dropped p @ (case slot c of None \<Rightarrow> [] | Some v \<Rightarrow> [v])\<rparr>"
  "cells p a = Some c \<Longrightarrow> strong c \<noteq> 1 \<Longrightarrow>
     arc_drop a p = p\<lparr>cells := (cells p)(a \<mapsto> c\<lparr>strong := strong c - 1\<rparr>)\<rparr>"
  by (simp_all add: arc_new_def arc_clone_def arc_drop_def)

lemma arc_drop_os [simp]: "os (arc_drop a p) = os p"
  by (simp add: arc_drop_def split: option.split)

text \<open>A system whose calls all succeed at once, and one that takes no small stacks.\<close>

definition calm_threads :: "('w, 'p) thread_sys" where
  "calm_threads =
     \<lparr>pt_create = (\<lambda>_ _ w. ((0, 1), w)), pt_attr_init = (\<lambda>_ w. ((0, 8), w)),
      pt_attr_setstacksize = (\<lambda>a _ w. ((0, a), w)), pt_attr_destroy = (\<lambda>_ w. (0, w)),
      pt_join = (\<lambda>_ w. (0, w)), pt_detach = (\<lambda>_ w. (0, w)),
      pm_init = (\<lambda>_ w. ((0, 16), w)), pm_lock = (\<lambda>_ w. (0, w)), pm_unlock = (\<lambda>_ w. (0, w)),
      pm_destroy = (\<lambda>_ w. (0, w)), pc_init = (\<lambda>_ w. ((0, 24), w)), pc_wait = (\<lambda>_ _ w. (0, w)),
      pc_signal = (\<lambda>_ w. (0, w)), pc_broadcast = (\<lambda>_ w. (0, w)), pc_destroy = (\<lambda>_ w. (0, w)),
      PT_EINVAL = 22\<rparr>"

definition eager_threads :: "(nat, nat packet) thread_sys" where
  "eager_threads = calm_threads
     \<lparr>pt_create := (\<lambda>_ _ w. ((0, 1), Suc w)),
      pt_attr_setstacksize := (\<lambda>a n w. ((if n < 2048 then 22 else 0, a), w))\<rparr>"

definition empty_proc :: "'w \<Rightarrow> ('v, 'w) proc" where
  "empty_proc w = \<lparr>cells = (\<lambda>_. None), fresh = 0, dropped = [], os = w\<rparr>"

text \<open>
  The calls of a spawn with their arguments and results, recorded in order beside the state,
  with the runs of the closure's destructor.
\<close>

datatype 'c thread_event =
    AttrInit i32 pthread_attr
  | StackSize pthread_attr usize i32 pthread_attr
  | AttrDestroy pthread_attr
  | Create "pthread_attr option" "'c packet" i32 pthread
  | ClosureDropped 'c

definition traced_threads ::
  "('w, 'c packet) thread_sys \<Rightarrow> ('w \<times> 'c thread_event list, 'c packet) thread_sys" where
  "traced_threads T =
     \<lparr>pt_create = (\<lambda>a pk (w, t). case pt_create T a pk w of ((rc, h), w') \<Rightarrow>
        ((rc, h), w', t @ [Create a pk rc h])),
      pt_attr_init = (\<lambda>a (w, t). case pt_attr_init T a w of ((rc, a'), w') \<Rightarrow>
        ((rc, a'), w', t @ [AttrInit rc a'])),
      pt_attr_setstacksize = (\<lambda>a n (w, t). case pt_attr_setstacksize T a n w of ((rc, a'), w') \<Rightarrow>
        ((rc, a'), w', t @ [StackSize a n rc a'])),
      pt_attr_destroy = (\<lambda>a (w, t). case pt_attr_destroy T a w of (r, w') \<Rightarrow> (r, w', t @ [AttrDestroy a])),
      pt_join = (\<lambda>h (w, t). case pt_join T h w of (r, w') \<Rightarrow> (r, w', t)),
      pt_detach = (\<lambda>h (w, t). case pt_detach T h w of (r, w') \<Rightarrow> (r, w', t)),
      pm_init = (\<lambda>m (w, t). case pm_init T m w of (r, w') \<Rightarrow> (r, w', t)),
      pm_lock = (\<lambda>m (w, t). case pm_lock T m w of (r, w') \<Rightarrow> (r, w', t)),
      pm_unlock = (\<lambda>m (w, t). case pm_unlock T m w of (r, w') \<Rightarrow> (r, w', t)),
      pm_destroy = (\<lambda>m (w, t). case pm_destroy T m w of (r, w') \<Rightarrow> (r, w', t)),
      pc_init = (\<lambda>c (w, t). case pc_init T c w of (r, w') \<Rightarrow> (r, w', t)),
      pc_wait = (\<lambda>c m (w, t). case pc_wait T c m w of (r, w') \<Rightarrow> (r, w', t)),
      pc_signal = (\<lambda>c (w, t). case pc_signal T c w of (r, w') \<Rightarrow> (r, w', t)),
      pc_broadcast = (\<lambda>c (w, t). case pc_broadcast T c w of (r, w') \<Rightarrow> (r, w', t)),
      pc_destroy = (\<lambda>c (w, t). case pc_destroy T c w of (r, w') \<Rightarrow> (r, w', t)),
      PT_EINVAL = PT_EINVAL T\<rparr>"

definition traced_drop :: "('c \<Rightarrow> 'w \<Rightarrow> 'w) \<Rightarrow> 'c \<Rightarrow> 'w \<times> 'c thread_event list \<Rightarrow> 'w \<times> 'c thread_event list" where
  "traced_drop d c wt = (d c (fst wt), snd wt @ [ClosureDropped c])"

text \<open>
  The calls by which a thread is created: an attribute object is used only for a custom stack
  size, and then destroyed once, after its last use, on every path on which it was initialised.
\<close>

definition create_calls :: "usize option \<Rightarrow> 'c packet \<Rightarrow> i32 \<Rightarrow> pthread \<Rightarrow> 'c thread_event list \<Rightarrow> bool" where
  "create_calls stack pk rc h es \<longleftrightarrow>
     (case stack of
        None \<Rightarrow> es = [Create None pk rc h]
      | Some bytes \<Rightarrow>
          (\<exists>a. rc \<noteq> 0 \<and> es = [AttrInit rc a]) \<or>
          (\<exists>a b. rc \<noteq> 0 \<and> es = [AttrInit 0 a, StackSize a bytes rc b, AttrDestroy b]) \<or>
          (\<exists>a b. es = [AttrInit 0 a, StackSize a bytes 0 b, Create (Some b) pk rc h, AttrDestroy b]))"

lemma create_thread_calls:
  assumes "create_thread (traced_threads T) stack pk (w, t) = ((rc, h), w', t')"
  shows "create_thread T stack pk w = ((rc, h), w') \<and> (\<exists>es. t' = t @ es \<and> create_calls stack pk rc h es)"
  using assms
  by (auto simp: create_thread_def traced_threads_def create_calls_def split: prod.splits option.splits if_splits)

text \<open>
  C27: a spawn makes the calls that create a thread once, and hands the closure's packet to
  \<^verbatim>\<open>pthread_create\<close> at most once. If they succeed, the packet has been given to exactly one new
  thread, whose handle is returned and whose result slot is then shared by the two (two
  references, nothing stored), and the closure has not been dropped. If one of them fails, its
  code is reported, the closure's destructor has run once, after them, and the heap is as it
  was.
\<close>

theorem spawn_hands_over_or_cleans_up:
  assumes "cells p (fresh p) = None" and "os p = (w, t)"
    and "builder_spawn (traced_threads T) (traced_drop d) b f p = (r, p')"
  shows "\<exists>rc h es. create_calls (stack_size b) \<lparr>closure = f, packet_shared = fresh p\<rparr> rc h es \<and>
    fresh p' = Suc (fresh p) \<and> dropped p' = dropped p \<and>
    (if rc = 0
     then r = Inr \<lparr>handle = h, joined = False, handle_shared = fresh p\<rparr> \<and>
       cells p' = (cells p)(fresh p \<mapsto> \<lparr>strong = 2, slot = None\<rparr>) \<and> snd (os p') = t @ es
     else r = Inl (Os (Errno rc)) \<and> cells p' = cells p \<and> snd (os p') = t @ es @ [ClosureDropped f])"
proof -
  let ?pk = "\<lparr>closure = f, packet_shared = fresh p\<rparr>"
  obtain rc h w' t' where ct:
    "create_thread (traced_threads T) (stack_size b) ?pk (w, t) = ((rc, h), w', t')"
    by (metis prod.exhaust)
  from create_thread_calls [OF ct] obtain es where es: "t' = t @ es" "create_calls (stack_size b) ?pk rc h es"
    by blast
  have "(cells p)(fresh p := None) = cells p" using assms(1) by (simp add: fun_upd_idem)
  with assms(2,3) ct es show ?thesis
    by (intro exI [of _ rc] exI [of _ h] exI [of _ es])
       (auto simp: builder_spawn_def Let_def drop_packet_def traced_drop_def numeral_2_eq_2)
qed

theorem spawn_hands_over_or_cleans_up_witness:
  "\<exists>p' h es. builder_spawn (traced_threads eager_threads) (traced_drop (\<lambda>c w. w + c))
     (builder_stack_size builder_new 1000) 5 (empty_proc (0, []) :: (bool, nat \<times> nat thread_event list) proc) = (Inl (Os (Errno 22)), p') \<and>
   cells p' 0 = None \<and> snd (os p') = es @ [ClosureDropped 5] \<and>
   create_calls (Some 1000) \<lparr>closure = 5, packet_shared = 0\<rparr> 22 h es"
proof -
  let ?p = "empty_proc (0, []) :: (bool, nat \<times> nat thread_event list) proc"
  let ?b = "builder_stack_size builder_new 1000"
  obtain p' where run: "builder_spawn (traced_threads eager_threads) (traced_drop (\<lambda>c w. w + c)) ?b 5 ?p =
      (Inl (Os (Errno 22)), p')"
    by (simp add: builder_spawn_def Let_def create_thread_def traced_threads_def eager_threads_def
        calm_threads_def builder_stack_size_def builder_new_def empty_proc_def)
  have p: "cells ?p (fresh ?p) = None" "os ?p = (0, [])" by (simp_all add: empty_proc_def)
  from spawn_hands_over_or_cleans_up [OF p run] obtain rc h es where
    "create_calls (Some 1000) \<lparr>closure = 5, packet_shared = 0\<rparr> rc h es" "rc \<noteq> 0" "rc = 22"
    "cells p' = (\<lambda>_. None)" "snd (os p') = es @ [ClosureDropped 5]"
    by (auto simp: builder_stack_size_def builder_new_def empty_proc_def split: if_splits)
  with run show ?thesis by auto
qed

section \<open>The life of a thread and its handle\<close>

text \<open>
  The thread's side runs the three steps of the entry point; the other side holds the
  handle, then joins or drops it. The steps of the two sides interleave freely, with the
  rest of the process in between, which cannot reach the slot at \<open>a\<close>. A thread phase keeps
  the value the closure returned. A join that reports success happens after the thread has
  run to its end (\<^verbatim>\<open>pthread_join\<close> blocks until then).
\<close>

datatype ('c, 'v) thread_phase = Ready "'c packet" | Returned nat 'v | Stored nat 'v | Finished 'v

datatype 'v handle_phase = Held join_handle | Joined i32 "'v result" | Discarded

record ('c, 'v, 'w) life =
  lf_proc :: "('v, 'w) proc"
  lf_thread :: "('c, 'v) thread_phase"
  lf_handle :: "'v handle_phase"

inductive life_step ::
  "('w, 'c packet) thread_sys \<Rightarrow> ('c \<Rightarrow> 'w \<Rightarrow> ('v \<times> 'w) option) \<Rightarrow> nat \<Rightarrow>
   ('c, 'v, 'w) life \<Rightarrow> ('c, 'v, 'w) life \<Rightarrow> bool"
  for T run a
where
  call: "lf_thread s = Ready pk \<Longrightarrow> run (closure pk) (os (lf_proc s)) = Some (v, w') \<Longrightarrow>
    life_step T run a s
      (s\<lparr>lf_proc := (lf_proc s)\<lparr>os := w'\<rparr>, lf_thread := Returned (packet_shared pk) v\<rparr>)"
| store: "lf_thread s = Returned b v \<Longrightarrow>
    life_step T run a s (s\<lparr>lf_proc := slot_store b v (lf_proc s), lf_thread := Stored b v\<rparr>)"
| release: "lf_thread s = Stored b v \<Longrightarrow>
    life_step T run a s (s\<lparr>lf_proc := arc_drop b (lf_proc s), lf_thread := Finished v\<rparr>)"
| join: "lf_handle s = Held h \<Longrightarrow> thread_join T h (lf_proc s) = (r, p') \<Longrightarrow>
    fst (pt_join T (handle h) (os (lf_proc s))) = rc \<Longrightarrow>
    (rc = 0 \<Longrightarrow> \<exists>v. lf_thread s = Finished v) \<Longrightarrow>
    life_step T run a s (s\<lparr>lf_proc := p', lf_handle := Joined rc r\<rparr>)"
| discard: "lf_handle s = Held h \<Longrightarrow>
    life_step T run a s (s\<lparr>lf_proc := drop_join_handle T h (lf_proc s), lf_handle := Discarded\<rparr>)"
| others: "cells p' a = cells (lf_proc s) a \<Longrightarrow> dropped p' = dropped (lf_proc s) \<Longrightarrow>
    life_step T run a s (s\<lparr>lf_proc := p'\<rparr>)"

lemma trampoline_is_three_steps:
  assumes "lf_thread s = Ready pk" and "trampoline run pk (lf_proc s) = Some p'"
  shows "\<exists>v. (life_step T run a)\<^sup>*\<^sup>* s (s\<lparr>lf_proc := p', lf_thread := Finished v\<rparr>)"
proof -
  from assms(2) obtain v w' where r: "run (closure pk) (os (lf_proc s)) = Some (v, w')"
    and p': "p' = arc_drop (packet_shared pk)
      (slot_store (packet_shared pk) v ((lf_proc s)\<lparr>os := w'\<rparr>))"
    by (auto simp: trampoline_def split: option.splits)
  let ?s1 = "s\<lparr>lf_proc := (lf_proc s)\<lparr>os := w'\<rparr>, lf_thread := Returned (packet_shared pk) v\<rparr>"
  let ?s2 = "?s1\<lparr>lf_proc := slot_store (packet_shared pk) v (lf_proc ?s1),
    lf_thread := Stored (packet_shared pk) v\<rparr>"
  have "life_step T run a s ?s1" using assms(1) r by (rule life_step.call)
  moreover have "life_step T run a ?s1 ?s2" by (rule life_step.store) simp
  moreover have "life_step T run a ?s2
      (?s2\<lparr>lf_proc := arc_drop (packet_shared pk) (lf_proc ?s2), lf_thread := Finished v\<rparr>)"
    by (rule life_step.release) simp
  ultimately have "(life_step T run a)\<^sup>*\<^sup>* s
      (?s2\<lparr>lf_proc := arc_drop (packet_shared pk) (lf_proc ?s2), lf_thread := Finished v\<rparr>)"
    by (meson rtranclp.rtrancl_into_rtrancl rtranclp.rtrancl_refl)
  then show ?thesis by (auto simp: p')
qed

text \<open>The references that are still held, and what the slot at \<open>a\<close> must then contain.\<close>

definition thread_refs :: "('c, 'v) thread_phase \<Rightarrow> nat" where
  "thread_refs t = (case t of Finished _ \<Rightarrow> 0 | _ \<Rightarrow> 1)"

definition handle_refs :: "'v handle_phase \<Rightarrow> nat" where
  "handle_refs h = (case h of Held _ \<Rightarrow> 1 | _ \<Rightarrow> 0)"

definition stored_value :: "('c, 'v) thread_phase \<Rightarrow> 'v option" where
  "stored_value t = (case t of Stored _ v \<Rightarrow> Some v | Finished v \<Rightarrow> Some v | _ \<Rightarrow> None)"

definition expected_cell :: "('c, 'v) thread_phase \<Rightarrow> 'v handle_phase \<Rightarrow> 'v shared option" where
  "expected_cell t h =
     (if thread_refs t + handle_refs h = 0 then None
      else Some \<lparr>strong = thread_refs t + handle_refs h, slot = stored_value t\<rparr>)"

definition expected_drops :: "('c, 'v) thread_phase \<Rightarrow> 'v handle_phase \<Rightarrow> 'v list" where
  "expected_drops t h =
     (case (t, h) of
        (Finished v, Held _) \<Rightarrow> []
      | (Finished v, Joined rc _) \<Rightarrow> if rc = 0 then [] else [v]
      | (Finished v, Discarded) \<Rightarrow> [v]
      | _ \<Rightarrow> [])"

definition life_inv :: "nat \<Rightarrow> 'v list \<Rightarrow> ('c, 'v, 'w) life \<Rightarrow> bool" where
  "life_inv a d s \<longleftrightarrow>
     cells (lf_proc s) a = expected_cell (lf_thread s) (lf_handle s) \<and>
     dropped (lf_proc s) = d @ expected_drops (lf_thread s) (lf_handle s) \<and>
     (case lf_thread s of
        Ready pk \<Rightarrow> packet_shared pk = a | Returned b _ \<Rightarrow> b = a | Stored b _ \<Rightarrow> b = a
      | Finished _ \<Rightarrow> True) \<and>
     (case lf_handle s of
        Held h \<Rightarrow> handle_shared h = a \<and> \<not> joined h
      | Joined rc r \<Rightarrow>
          (if rc = 0 then \<exists>v. lf_thread s = Finished v \<and> r = Inr v else r = Inl (Os (Errno rc)))
      | Discarded \<Rightarrow> True)"

lemmas expected_simps = expected_cell_def expected_drops_def thread_refs_def handle_refs_def
  stored_value_def

lemma life_step_inv: "life_step T run a s s' \<Longrightarrow> life_inv a d s \<Longrightarrow> life_inv a d s'"
proof (induction rule: life_step.induct)
  case (call s pk v w')
  then show ?case by (auto simp: life_inv_def expected_simps split: handle_phase.splits)
next
  case (store s b v)
  then show ?case
    by (auto simp: life_inv_def expected_simps slot_store_def split: handle_phase.splits)
next
  case (release s b v)
  then show ?case
    by (cases "lf_handle s")
       (auto simp: life_inv_def expected_simps arc_drop_def split: if_splits)
next
  case (discard s h)
  then show ?case
    by (cases "lf_thread s")
       (auto simp: life_inv_def expected_simps drop_join_handle_def arc_drop_def)
next
  case (others p' s)
  then show ?case by (cases "lf_handle s") (auto simp: life_inv_def)
next
  case (join s h r p' rc)
  obtain w1 where j: "pt_join T (handle h) (os (lf_proc s)) = (rc, w1)"
    using join.hyps(3) by (cases "pt_join T (handle h) (os (lf_proc s))") auto
  show ?case
  proof (cases "rc = 0")
    case True
    with join obtain v where v: "lf_thread s = Finished v" by blast
    with True join j show ?thesis
      by (auto simp: life_inv_def expected_simps thread_join_def drop_join_handle_def slot_take_def
          arc_drop_def split: prod.splits)
  next
    case False
    with join j show ?thesis
      by (cases "lf_thread s")
         (auto simp: life_inv_def expected_simps thread_join_def drop_join_handle_def arc_drop_def)
  qed
qed

lemma life_reach_inv: "(life_step T run a)\<^sup>*\<^sup>* s s' \<Longrightarrow> life_inv a d s \<Longrightarrow> life_inv a d s'"
  by (rule steps_keep [OF _ life_step_inv])

text \<open>A life starts where a successful spawn ends.\<close>

definition life_start ::
  "('v, 'w) proc \<Rightarrow> 'c \<Rightarrow> nat \<Rightarrow> join_handle \<Rightarrow> ('c, 'v, 'w) life" where
  "life_start p f a h =
     \<lparr>lf_proc = p, lf_thread = Ready \<lparr>closure = f, packet_shared = a\<rparr>, lf_handle = Held h\<rparr>"

lemma life_start_inv:
  assumes "cells p (fresh p) = None" and "builder_spawn T drop_closure b f p = (Inr h, p1)"
  shows "life_inv (fresh p) (dropped p) (life_start p1 f (fresh p) h)"
  using assms
  by (auto simp: life_inv_def life_start_def expected_simps builder_spawn_def Let_def
      numeral_2_eq_2 split: prod.splits if_splits)

lemmas life_from_spawn = life_reach_inv [OF _ life_start_inv]

text \<open>
  C15: from a successful spawn on, under every interleaving of the thread, the owner of the
  handle and the rest of the process, once the thread has ended and the handle is used up
  the result slot has been freed and the closure's value has met exactly one fate: the
  successful join returned it, or it was dropped once (the handle was dropped, or the join
  failed). A successful join always finds a value.
\<close>

theorem thread_result_used_exactly_once:
  assumes "cells p (fresh p) = None" and "builder_spawn T drop_closure b f p = (Inr h, p1)"
    and "(life_step T run (fresh p))\<^sup>*\<^sup>* (life_start p1 f (fresh p) h) s"
    and "lf_thread s = Finished v" and "\<forall>h. lf_handle s \<noteq> Held h"
  shows "cells (lf_proc s) (fresh p) = None \<and>
    (case lf_handle s of
       Joined rc r \<Rightarrow>
         if rc = 0 then r = Inr v \<and> dropped (lf_proc s) = dropped p
         else r = Inl (Os (Errno rc)) \<and> dropped (lf_proc s) = dropped p @ [v]
     | _ \<Rightarrow> dropped (lf_proc s) = dropped p @ [v])"
  using life_from_spawn [OF assms(3,1,2)] assms(4,5)
  by (cases "lf_handle s") (auto simp: life_inv_def expected_simps)

text \<open>
  C16: as long as the thread has not dropped its reference or the handle still exists, the
  slot is allocated, with exactly one reference per side, and nothing of it has been
  dropped: neither side can reach a freed slot, and the handle never reads a half-made one.
\<close>

theorem slot_outlives_its_owners:
  assumes "cells p (fresh p) = None" and "builder_spawn T drop_closure b f p = (Inr h, p1)"
    and "(life_step T run (fresh p))\<^sup>*\<^sup>* (life_start p1 f (fresh p) h) s"
    and "(\<forall>v. lf_thread s \<noteq> Finished v) \<or> lf_handle s = Held h'"
  shows "cells (lf_proc s) (fresh p) =
      Some \<lparr>strong = thread_refs (lf_thread s) + handle_refs (lf_handle s),
            slot = stored_value (lf_thread s)\<rparr> \<and>
    dropped (lf_proc s) = dropped p"
  using life_from_spawn [OF assms(3,1,2)] assms(4)
  by (cases "lf_thread s"; cases "lf_handle s") (auto simp: life_inv_def expected_simps)

text \<open>A run: the thread stores its value before the handle is dropped, then ends.\<close>

definition start_proc :: "(nat, nat) proc" where
  "start_proc = (empty_proc 1)\<lparr>cells := (\<lambda>_. None)(0 \<mapsto> \<lparr>strong = 2, slot = None\<rparr>), fresh := 1\<rparr>"

definition start_handle :: join_handle where
  "start_handle = \<lparr>handle = 1, joined = False, handle_shared = 0\<rparr>"

definition add_run :: "nat \<Rightarrow> nat \<Rightarrow> (nat \<times> nat) option" where
  "add_run c w = Some (c + w, w)"

lemma start_spawned:
  "builder_spawn eager_threads (\<lambda>c w. w + c) builder_new 5 (empty_proc 0) = (Inr start_handle, start_proc)"
  by (simp add: builder_spawn_def empty_proc_def create_thread_def eager_threads_def calm_threads_def builder_new_def
      start_handle_def start_proc_def numeral_2_eq_2)

definition stored_life :: "(nat, nat, nat) life" where
  "stored_life =
     \<lparr>lf_proc = start_proc\<lparr>cells := (\<lambda>_. None)(0 \<mapsto> \<lparr>strong = 2, slot = Some 6\<rparr>)\<rparr>,
      lf_thread = Stored 0 6, lf_handle = Held start_handle\<rparr>"

definition ended_life :: "(nat, nat, nat) life" where
  "ended_life =
     \<lparr>lf_proc = start_proc\<lparr>cells := (\<lambda>_. None), dropped := [6]\<rparr>,
      lf_thread = Finished 6, lf_handle = Discarded\<rparr>"

lemma stored_life_reached:
  "(life_step eager_threads add_run 0)\<^sup>*\<^sup>* (life_start start_proc 5 0 start_handle) stored_life"
proof -
  let ?s0 = "life_start start_proc 5 0 start_handle"
  let ?s1 = "?s0\<lparr>lf_thread := Returned 0 6\<rparr>"
  have "life_step eager_threads add_run 0 ?s0 ?s1"
    using life_step.call [of ?s0 "\<lparr>closure = 5, packet_shared = 0\<rparr>" add_run 6 1 eager_threads 0]
    by (simp add: life_start_def add_run_def start_proc_def empty_proc_def)
  moreover have "life_step eager_threads add_run 0 ?s1 stored_life"
    using life_step.store [of ?s1 0 6 eager_threads add_run 0]
    by (simp add: life_start_def stored_life_def start_proc_def empty_proc_def slot_store_def)
  ultimately show ?thesis by (meson rtranclp.rtrancl_into_rtrancl rtranclp.rtrancl_refl)
qed

lemma ended_life_reached:
  "(life_step eager_threads add_run 0)\<^sup>*\<^sup>* (life_start start_proc 5 0 start_handle) ended_life"
proof -
  let ?s3 = "stored_life\<lparr>lf_proc := drop_join_handle eager_threads start_handle (lf_proc stored_life),
    lf_handle := Discarded\<rparr>"
  have "life_step eager_threads add_run 0 stored_life ?s3"
    by (rule life_step.discard) (simp add: stored_life_def)
  moreover have "life_step eager_threads add_run 0 ?s3 ended_life"
    using life_step.release [of ?s3 0 6 eager_threads add_run 0]
    by (simp add: stored_life_def ended_life_def drop_join_handle_def start_handle_def arc_drop_def
        start_proc_def empty_proc_def eager_threads_def calm_threads_def)
  ultimately show ?thesis
    using stored_life_reached by (meson rtranclp.rtrancl_into_rtrancl)
qed

theorem thread_result_used_exactly_once_witness:
  "cells (lf_proc ended_life) 0 = None \<and> dropped (lf_proc ended_life) = [6]"
  using thread_result_used_exactly_once [of "empty_proc 0" eager_threads "\<lambda>c w. w + c" builder_new 5
      start_handle start_proc add_run ended_life 6]
    start_spawned ended_life_reached
  by (simp add: empty_proc_def ended_life_def)

theorem slot_outlives_its_owners_witness:
  "cells (lf_proc stored_life) 0 = Some \<lparr>strong = 2, slot = Some 6\<rparr> \<and>
   dropped (lf_proc stored_life) = []"
  using slot_outlives_its_owners [of "empty_proc 0" eager_threads "\<lambda>c w. w + c" builder_new 5
      start_handle start_proc add_run stored_life]
    start_spawned stored_life_reached
  by (simp add: empty_proc_def stored_life_def expected_simps)

section \<open>Locks and their guards\<close>

text \<open>
  The documented behaviour of the lock calls as one thread sees it, told through an
  observation: \<open>held w m\<close> says that the calling thread holds the mutex with the handle \<open>m\<close>.
  \<^verbatim>\<open>pthread_cond_wait\<close> holds the mutex again when it returns, also with an error.
\<close>

definition lock_contract ::
  "('w, 'p) thread_sys \<Rightarrow> ('w \<Rightarrow> pthread_slot \<Rightarrow> bool) \<Rightarrow> bool" where
  "lock_contract T held \<longleftrightarrow>
     (\<forall>m w rc w'. pm_lock T m w = (rc, w') \<longrightarrow>
        held w' = (if rc = 0 then (held w)(m := True) else held w)) \<and>
     (\<forall>m w rc w'. pm_unlock T m w = (rc, w') \<longrightarrow> held w m \<longrightarrow> held w' = (held w)(m := False)) \<and>
     (\<forall>c m w rc w'. pc_wait T c m w = (rc, w') \<longrightarrow> held w m \<longrightarrow> held w' = held w)"

text \<open>
  C28: a guard exists exactly while its mutex is held: a successful lock makes the guard of
  the mutex it now holds, a failed one takes nothing; waiting gives back the same guard with
  the mutex held, and on an error has released it; dropping the guard releases it. No other
  mutex is touched.
\<close>

theorem guards_track_the_lock:
  assumes "lock_contract T held"
  shows "(case mutex_lock T m w of
      (Inr g, w') \<Rightarrow> guard_inner g = mx_inner m \<and> held w' = (held w)(guard_inner g := True)
    | (Inl _, w') \<Rightarrow> held w' = held w) \<and>
    (held w (guard_inner g) \<longrightarrow>
      held (drop_guard T g w) = (held w)(guard_inner g := False) \<and>
      (case condvar_wait T c g w of
         (Inr g', w') \<Rightarrow> g' = g \<and> held w' = held w
       | (Inl _, w') \<Rightarrow> held w' = (held w)(guard_inner g := False)))"
proof -
  have lock: "held w' = (if rc = 0 then (held w)(i := True) else held w)"
    if "pm_lock T i w = (rc, w')" for i w rc w'
    using assms that by (auto simp: lock_contract_def)
  have unlock: "held w' = (held w)(i := False)" if "pm_unlock T i w = (rc, w')" "held w i" for i w rc w'
    using assms that unfolding lock_contract_def by blast
  have waits: "held w' = held w" if "pc_wait T c i w = (rc, w')" "held w i" for c i w rc w'
    using assms that unfolding lock_contract_def by blast
  have drops: "held (drop_guard T g w) = (held w)(guard_inner g := False)"
    if "held w (guard_inner g)" for g w
    using unlock [of "guard_inner g" w] that
    by (cases "pm_unlock T (guard_inner g) w") (simp add: drop_guard_def)
  have "case mutex_lock T m w of
      (Inr g, w') \<Rightarrow> guard_inner g = mx_inner m \<and> held w' = (held w)(guard_inner g := True)
    | (Inl _, w') \<Rightarrow> held w' = held w"
    using lock [of "mx_inner m" w]
    by (cases "fst (pm_lock T (mx_inner m) w) = 0") (auto simp: mutex_lock_def split: prod.splits)
  moreover have "case condvar_wait T c g w of
      (Inr g', w') \<Rightarrow> g' = g \<and> held w' = held w
    | (Inl _, w') \<Rightarrow> held w' = (held w)(guard_inner g := False)" if h: "held w (guard_inner g)"
    using waits [OF _ h] drops [of _ "\<lparr>guard_inner = guard_inner g\<rparr>"] h
    by (auto simp: condvar_wait_def Let_def split: prod.splits)
  ultimately show ?thesis using drops [of w g] by (intro conjI impI)
qed

text \<open>A system whose state is the set of mutexes held, where waiting always fails.\<close>

definition lock_set :: "(pthread_slot \<Rightarrow> bool, nat) thread_sys" where
  "lock_set = calm_threads
     \<lparr>pm_lock := (\<lambda>m w. (0, w(m := True))), pm_unlock := (\<lambda>m w. (0, w(m := False))),
      pc_wait := (\<lambda>_ _ w. (22, w))\<rparr>"

theorem guards_track_the_lock_witness:
  "(\<lambda>_. False)(16 := True) = snd (mutex_lock lock_set \<lparr>mx_inner = 16, mx_data = ()\<rparr> (\<lambda>_. False)) \<and>
   snd (condvar_wait lock_set \<lparr>cv_inner = 24\<rparr> \<lparr>guard_inner = 16\<rparr> ((\<lambda>_. False)(16 := True))) =
     (\<lambda>_. False)(16 := False)"
proof -
  have c: "lock_contract lock_set (\<lambda>w. w)" by (auto simp: lock_contract_def lock_set_def calm_threads_def)
  have l: "mutex_lock lock_set \<lparr>mx_inner = 16, mx_data = ()\<rparr> (\<lambda>_. False) =
      (Inr \<lparr>guard_inner = 16\<rparr>, (\<lambda>_. False)(16 := True))"
    by (simp add: mutex_lock_def lock_set_def calm_threads_def)
  have e: "fst (condvar_wait lock_set \<lparr>cv_inner = 24\<rparr> \<lparr>guard_inner = 16\<rparr> ((\<lambda>_. False)(16 := True)))
      = Inl (Os (Errno 22))"
    by (simp add: condvar_wait_def lock_set_def calm_threads_def)
  from guards_track_the_lock [OF c, where m = "\<lparr>mx_inner = 16, mx_data = ()\<rparr>"
      and w = "(\<lambda>_. False)(16 := True)" and g = "\<lparr>guard_inner = 16\<rparr>" and c = "\<lparr>cv_inner = 24\<rparr>"] l e
  show ?thesis by (auto split: prod.splits sum.splits)
qed

end
