(* ===== verification/Http_Server.thy ===== *)
theory Http_Server
  imports Http_Reader Thread
begin

text \<open>
  The server of \<^verbatim>\<open>crates/core/src/http.rs\<close>: its settings, the answer to one connection, and the
  accept loop that gives each connection a thread. It is the client of the socket operations
  (theory \<open>Net\<close>), of the reader and the message code (theories \<open>Http_Reader\<close> and
  \<open>Http_Message\<close>) and of the thread code (theory \<open>Thread\<close>).
\<close>

section \<open>Settings\<close>

definition DEFAULT_STACK_SIZE :: usize where
  "DEFAULT_STACK_SIZE = 128 * 1024"

record server =
  sv_stack_size :: usize
  sv_limits :: limits

definition server_new :: server where
  "server_new =
     \<lparr>sv_stack_size = DEFAULT_STACK_SIZE,
      sv_limits = \<lparr>max_header_bytes = DEFAULT_MAX_HEADER_BYTES,
                   max_body_bytes = DEFAULT_MAX_BODY_BYTES\<rparr>\<rparr>"

definition server_stack_size :: "server \<Rightarrow> usize \<Rightarrow> server" where
  "server_stack_size sv bytes = sv\<lparr>sv_stack_size := bytes\<rparr>"

definition server_max_header_bytes :: "server \<Rightarrow> usize \<Rightarrow> server" where
  "server_max_header_bytes sv bytes = sv\<lparr>sv_limits := (sv_limits sv)\<lparr>max_header_bytes := bytes\<rparr>\<rparr>"

definition server_max_body_bytes :: "server \<Rightarrow> usize \<Rightarrow> server" where
  "server_max_body_bytes sv bytes = sv\<lparr>sv_limits := (sv_limits sv)\<lparr>max_body_bytes := bytes\<rparr>\<rparr>"

section \<open>Serving\<close>

definition write_response ::
  "('w, 'x) net_sys_scheme \<Rightarrow> tcp_stream \<Rightarrow> response \<Rightarrow> 'w \<Rightarrow> ((failure + unit) \<times> 'w) option" where
  "write_response K s r w = tcp_write_all K s (encode r) w"

text \<open>
  The last two statements of \<^verbatim>\<open>serve_connection\<close>: their errors are ignored, a panic is not.
  A handler maps a request to a response and may act on the system. \<open>None\<close> is a connection
  that is never done (the response is never accepted).
\<close>

definition bad_request :: response where
  "bad_request = response_text (response_new 400) ''Bad Request''"

definition respond ::
  "('w, 'x) net_sys_scheme \<Rightarrow> tcp_stream \<Rightarrow> response \<Rightarrow> 'w \<Rightarrow> ((failure + unit) \<times> 'w) option" where
  "respond K s r w =
     (case write_response K s r w of
        None \<Rightarrow> None
      | Some (Inl Panic, w') \<Rightarrow> Some (Inl Panic, w')
      | Some (_, w') \<Rightarrow> Some (Inr (), snd (tcp_shutdown K s ShutBoth w')))"

definition serve_connection ::
  "('w, 'x) net_sys_scheme \<Rightarrow> tcp_stream \<Rightarrow> (request \<Rightarrow> 'w \<Rightarrow> response \<times> 'w) \<Rightarrow> limits \<Rightarrow> 'w \<Rightarrow>
   ((failure + unit) \<times> 'w) option" where
  "serve_connection K s handler lim w =
     (case read_request K s lim w of
        (Inr (Some req), w1) \<Rightarrow> (case handler req w1 of (response, w2) \<Rightarrow> respond K s response w2)
      | (Inr None, w1) \<Rightarrow> Some (Inr (), snd (tcp_shutdown K s ShutBoth w1))
      | (Inl (Fail _), w1) \<Rightarrow> respond K s bad_request w1
      | (Inl Panic, w1) \<Rightarrow> Some (Inl Panic, w1))"

text \<open>
  The closure of a connection's thread: its captures, the call, and the destructor of the
  captured stream, which runs after the call or, when the thread is never made, instead of it.
  (The release profile has \<^verbatim>\<open>panic = "abort"\<close>, so a panic does not return.)
\<close>

record connection =
  cn_stream :: tcp_stream
  cn_limits :: limits

definition drop_connection :: "('w, 'x) net_sys_scheme \<Rightarrow> connection \<Rightarrow> 'w \<Rightarrow> 'w" where
  "drop_connection K c w = drop_tcp_stream K (cn_stream c) w"

definition run_connection ::
  "('w, 'x) net_sys_scheme \<Rightarrow> (request \<Rightarrow> 'w \<Rightarrow> response \<times> 'w) \<Rightarrow> connection \<Rightarrow> 'w \<Rightarrow>
   (unit \<times> 'w) option" where
  "run_connection K handler c w =
     (case serve_connection K (cn_stream c) handler (cn_limits c) w of
        Some (Inr _, w') \<Rightarrow> Some ((), drop_connection K c w')
      | _ \<Rightarrow> None)"

text \<open>
  The accept loop and \<^verbatim>\<open>Server::serve\<close>. \<open>None\<close> is the loop that serves for ever. What the
  connections' threads do between two calls is part of what the next call finds.
\<close>

partial_function (option) accept_loop ::
  "('w, 'x) net_sys_scheme \<Rightarrow> ('w, connection packet) thread_sys \<Rightarrow> server \<Rightarrow> tcp_listener \<Rightarrow>
   (unit, 'w) proc \<Rightarrow> (error \<times> (unit, 'w) proc) option" where
  "accept_loop K T sv l p =
     (case tcp_accept K l (os p) of
        (Inr (stream, _), w1) \<Rightarrow>
          (case builder_spawn T (drop_connection K)
                  (builder_stack_size builder_new (sv_stack_size sv))
                  \<lparr>cn_stream = stream, cn_limits = sv_limits sv\<rparr> (p\<lparr>os := w1\<rparr>) of
             (Inl _, p2) \<Rightarrow> accept_loop K T sv l p2
           | (Inr h, p2) \<Rightarrow> accept_loop K T sv l (drop_join_handle T h p2))
      | (Inl e, w1) \<Rightarrow>
          if is_interrupt K e then accept_loop K T sv l (p\<lparr>os := w1\<rparr>) else Some (e, p\<lparr>os := w1\<rparr>))"

definition serve ::
  "('w, 'x) net_sys_scheme \<Rightarrow> ('w, connection packet) thread_sys \<Rightarrow> server \<Rightarrow> socket_addr \<Rightarrow>
   (unit, 'w) proc \<Rightarrow> (error \<times> (unit, 'w) proc) option" where
  "serve K T sv addr p =
     (case tcp_bind K addr (os p) of
        (Inl e, w1) \<Rightarrow> Some (e, p\<lparr>os := w1\<rparr>)
      | (Inr l, w1) \<Rightarrow>
        (case accept_loop K T sv l (p\<lparr>os := w1\<rparr>) of
           None \<Rightarrow> None
         | Some (e, p2) \<Rightarrow> Some (e, p2\<lparr>os := drop_tcp_listener K l (os p2)\<rparr>)))"

section \<open>Answering\<close>

text \<open>The ways \<^verbatim>\<open>serve_connection\<close> can go.\<close>

lemma respond_cases:
  assumes "respond K s resp w = Some (r, w')"
  shows "\<exists>r1 w1. write_response K s resp w = Some (r1, w1) \<and>
    (r1 \<noteq> Inl Panic \<longrightarrow> r = Inr () \<and> w' = snd (tcp_shutdown K s ShutBoth w1)) \<and>
    (r1 = Inl Panic \<longrightarrow> r = Inl Panic)"
  using assms by (auto simp: respond_def split: option.splits sum.splits failure.splits)

lemma serve_connection_cases:
  assumes "serve_connection K s handler lim w = Some (r, w')"
    and "read_request K s lim w = (rr, w1)"
  shows "(\<exists>req. rr = Inr (Some req) \<and>
      respond K s (fst (handler req w1)) (snd (handler req w1)) = Some (r, w')) \<or>
    (rr = Inr None \<and> r = Inr () \<and> w' = snd (tcp_shutdown K s ShutBoth w1)) \<or>
    (\<exists>e. rr = Inl (Fail e) \<and> respond K s bad_request w1 = Some (r, w')) \<or>
    (rr = Inl Panic \<and> r = Inl Panic)"
  using assms
  by (auto simp: serve_connection_def split: sum.splits option.splits failure.splits prod.splits)

text \<open>
  One connection as its peer sees it: \<open>pend\<close> is what the peer sent and the server has not
  read, \<open>log\<close> what the peer was sent.
\<close>

definition conn_contract ::
  "('w, 'x) net_sys_scheme \<Rightarrow> tcp_stream \<Rightarrow> ('w \<Rightarrow> u8 list) \<Rightarrow> ('w \<Rightarrow> u8 list) \<Rightarrow> bool" where
  "conn_contract K s pend log \<longleftrightarrow>
     recv_contract K s pend \<and> send_contract K s log \<and>
     (\<forall>len w x w'. net_recv K (stream_fd s) len 0 w = (x, w') \<longrightarrow> log w' = log w) \<and>
     (\<forall>how w x w'. net_shutdown K (stream_fd s) how w = (x, w') \<longrightarrow> log w' = log w)"

lemma conn_read_log:
  "conn_contract K s pend log \<Longrightarrow> tcp_read K s buf w = (r, buf', w') \<Longrightarrow> log w' = log w"
  by (fastforce simp: conn_contract_def tcp_read_def recv_fd_def cvt_ssize_def
      split: prod.splits if_splits)

lemma conn_shutdown_log:
  assumes "conn_contract K s pend log"
  shows "log (snd (tcp_shutdown K s how w)) = log w"
proof -
  have "log w' = log w" if "net_shutdown K (stream_fd s) h w = (x, w')" for h x w'
    using assms that unfolding conn_contract_def by blast
  then show ?thesis by (auto simp: tcp_shutdown_def Let_def cvt_i32_def split: prod.splits)
qed

text \<open>What a connection is answered with, from what reading its request gave.\<close>

definition answer ::
  "(request \<Rightarrow> 'w \<Rightarrow> response \<times> 'w) \<Rightarrow> (failure + request option) \<times> 'w \<Rightarrow> u8 list" where
  "answer handler rw =
     (case rw of
        (Inr (Some req), w) \<Rightarrow> encode (fst (handler req w))
      | (Inr None, w) \<Rightarrow> []
      | (Inl _, w) \<Rightarrow> encode bad_request)"

lemma write_response_log:
  assumes "conn_contract K s pend log" and "write_response K s resp w = Some (r, w')"
  shows "r \<noteq> Inl Panic \<and>
    (\<exists>sent rest. encode resp = sent @ rest \<and> log w' = log w @ sent \<and> (r = Inr () \<longrightarrow> rest = []))"
  using assms tcp_sink.pump_log [of K s log]
  by (auto simp: conn_contract_def write_response_def tcp_write_all_pump)

lemma response_is_sent:
  assumes c: "conn_contract K s pend log"
    and sends: "\<forall>buf w ret w'. net_send K (stream_fd s) buf 0 w = (ret, w') \<longrightarrow>
      ret \<noteq> -1 \<and> (buf \<noteq> [] \<longrightarrow> ret \<noteq> 0)"
  shows "\<exists>w'. respond K s resp w = Some (Inr (), w') \<and> log w' = log w @ encode resp"
proof -
  have c': "send_contract K s log" using c by (simp add: conn_contract_def)
  have "\<not> (tcp_write K s buf w = (Inl e, w') \<and> True)" for buf w e w'
    using sends by (fastforce simp: tcp_write_send)
  moreover have "\<forall>buf w w'. buf \<noteq> [] \<longrightarrow> tcp_write K s buf w \<noteq> (Inr 0, w')"
    using sends by (fastforce simp: tcp_write_send)
  ultimately have "\<exists>w3. write_response K s resp w = Some (Inr (), w3)"
    using tcp_sink.pump_total [OF c', of "is_interrupt K" "\<lambda>_. 0" "last_os K" "encode resp" w]
    unfolding write_response_def tcp_write_all_pump by auto
  then obtain w3 where wr: "write_response K s resp w = Some (Inr (), w3)" by blast
  from write_response_log [OF c wr] have "log w3 = log w @ encode resp" by auto
  then show ?thesis
    using wr conn_shutdown_log [OF c, of ShutBoth w3] by (simp add: respond_def)
qed

lemma answered_at_most_once:
  assumes "conn_contract K s pend log" and "\<And>req w. log (snd (handler req w)) = log w"
    and "serve_connection K s handler lim w = Some (r, w')"
  shows "r = Inr () \<and>
    (\<exists>sent rest. log w' = log w @ sent \<and> answer handler (read_request K s lim w) = sent @ rest)"
proof -
  obtain rr w1 where rd: "read_request K s lim w = (rr, w1)" by (cases "read_request K s lim w")
  have l1: "log w1 = log w"
    using read_request_keeps [of K s log lim w] conn_read_log [OF assms(1)] rd by (metis snd_conv)
  have np: "rr \<noteq> Inl Panic"
    using read_request_no_panic [of K s pend lim w] assms(1) rd by (simp add: conn_contract_def)
  have resp: "r = Inr () \<and> (\<exists>sent rest. log w' = log w2 @ sent \<and> encode resp = sent @ rest)"
    if "respond K s resp w2 = Some (r, w')" for resp w2
    using respond_cases [OF that] write_response_log [OF assms(1)] conn_shutdown_log [OF assms(1)]
    by (metis (no_types, lifting))
  from serve_connection_cases [OF assms(3) rd] np show ?thesis
  proof (elim disjE exE conjE)
    fix req assume "rr = Inr (Some req)"
      and "respond K s (fst (handler req w1)) (snd (handler req w1)) = Some (r, w')"
    with resp [OF this(2)] show ?thesis
      using rd by (auto simp: answer_def assms(2) l1)
  next
    fix e assume "rr = Inl (Fail e)" and "respond K s bad_request w1 = Some (r, w')"
    with resp [OF this(2)] show ?thesis using rd by (auto simp: answer_def l1)
  qed (use rd conn_shutdown_log [OF assms(1)] in \<open>auto simp: answer_def l1\<close>)
qed

text \<open>
  C5: a connection is answered at most once and never panics: what the peer is sent is a
  prefix of one encoded response, the handler's for a request, the 400 for a malformed or
  oversized one (or one whose reading failed), and nothing at all when the peer sent nothing.
\<close>

theorem connection_answered_once:
  assumes "conn_contract K s pend log" and "\<And>req w. log (snd (handler req w)) = log w"
    and "serve_connection K s handler lim w = Some (r, w')"
  shows "r = Inr () \<and>
    (\<exists>sent rest. log w' = log w @ sent \<and> answer handler (read_request K s lim w) = sent @ rest)"
  using answered_at_most_once [where K = K and s = s and pend = pend and log = log, OF assms] .

lemma well_formed_answer:
  assumes "conn_contract K s pend log" and "\<And>req w. log (snd (handler req w)) = log w"
    and "recv_reliable K s" and "wire_request lim req"
    and "length (request_head req) + 3 \<le> unat (max_header_bytes lim)"
    and "pend w = render_request req @ rest"
    and sends: "\<forall>buf w ret w'. net_send K (stream_fd s) buf 0 w = (ret, w') \<longrightarrow>
      ret \<noteq> -1 \<and> (buf \<noteq> [] \<longrightarrow> ret \<noteq> 0)"
  shows "\<exists>w1 w'. read_request K s lim w = (Inr (Some req), w1) \<and>
    serve_connection K s handler lim w = Some (Inr (), w') \<and>
    log w' = log w @ encode (fst (handler req w1))"
proof -
  have c: "recv_contract K s pend" "send_contract K s log" using assms(1) by (auto simp: conn_contract_def)
  obtain w1 where rd: "read_request K s lim w = (Inr (Some req), w1)"
    using read_head_whole [OF c(1) assms(3-6)] read_request_from_head [OF c(1) assms(3,4)] by blast
  have l1: "log w1 = log w"
    using read_request_keeps [of K s log lim w] conn_read_log [OF assms(1)] rd by (metis snd_conv)
  obtain resp w2 where h: "handler req w1 = (resp, w2)" by (cases "handler req w1")
  obtain w' where "respond K s resp w2 = Some (Inr (), w')" "log w' = log w2 @ encode resp"
    using response_is_sent [OF assms(1) sends] by blast
  with rd h l1 assms(2) [of req w1] show ?thesis
    by (intro exI [of _ w1] exI [of _ w']) (simp add: serve_connection_def)
qed

text \<open>
  C4: a well-formed request on a connection that keeps delivering and accepting bytes is
  answered completely: serving it returns, and the peer has been sent exactly the encoding of
  the handler's response to that very request.
\<close>

theorem well_formed_request_is_answered:
  assumes "conn_contract K s pend log" and "\<And>req w. log (snd (handler req w)) = log w"
    and "recv_reliable K s" and "wire_request lim req"
    and "length (request_head req) + 3 \<le> unat (max_header_bytes lim)"
    and "pend w = render_request req @ rest"
    and sends: "\<And>buf w ret w'. net_send K (stream_fd s) buf 0 w = (ret, w') \<Longrightarrow>
      ret \<noteq> -1 \<and> (buf \<noteq> [] \<longrightarrow> ret \<noteq> 0)"
  shows "\<exists>w1 w'. read_request K s lim w = (Inr (Some req), w1) \<and>
    serve_connection K s handler lim w = Some (Inr (), w') \<and>
    log w' = log w @ encode (fst (handler req w1))"
proof -
  have sends': "\<forall>buf w ret w'. net_send K (stream_fd s) buf 0 w = (ret, w') \<longrightarrow>
      ret \<noteq> -1 \<and> (buf \<noteq> [] \<longrightarrow> ret \<noteq> 0)"
    using sends by blast
  show ?thesis
    by (rule well_formed_answer [where K = K and s = s and pend = pend and log = log and
          handler = handler and lim = lim and req = req and w = w and rest = rest,
          OF assms(1-6) sends'])
qed

text \<open>
  C7: whatever is sent that is no acceptable request (no blank line before the peer closes or
  the limit is reached, a head that is not UTF-8 or does not parse, a body announced beyond
  the limit), on a connection that accepts bytes: serving it returns, the handler is not
  called, and the peer has been sent exactly the 400.
\<close>

theorem refused_request_gets_400:
  assumes "conn_contract K s pend log" and "refused lim (pend w)"
    and sends: "\<And>buf w ret w'. net_send K (stream_fd s) buf 0 w = (ret, w') \<Longrightarrow>
      ret \<noteq> -1 \<and> (buf \<noteq> [] \<longrightarrow> ret \<noteq> 0)"
  shows "\<exists>w'. (\<forall>handler. serve_connection K s handler lim w = Some (Inr (), w')) \<and>
    log w' = log w @ encode bad_request"
proof -
  have "recv_contract K s pend" using assms(1) by (simp add: conn_contract_def)
  then obtain e w1 where rd: "read_request K s lim w = (Inl (Fail e), w1)"
    using read_request_refused [of K s pend lim w] assms(2) by blast
  have l1: "log w1 = log w"
    using read_request_keeps [of K s log lim w] conn_read_log [OF assms(1)] rd by (metis snd_conv)
  obtain w' where "respond K s bad_request w1 = Some (Inr (), w')" "log w' = log w1 @ encode bad_request"
    using response_is_sent [OF assms(1)] sends by metis
  with rd l1 show ?thesis by (intro exI [of _ w']) (simp add: serve_connection_def)
qed

definition echo_handler :: "request \<Rightarrow> 'w \<Rightarrow> response \<times> 'w" where
  "echo_handler req w = (with_body response_ok (rq_body req), w)"

lemma drip_conn_contract:
  assumes "0 < k" and "k \<le> 4096"
  shows "conn_contract (drip_net k) s fst snd"
proof -
  have "send_contract (drip_net k) s snd"
    by (auto simp: send_contract_def drip_net_def of_nat_min_2 split: prod.splits)
       (simp_all add: min_def)
  then show ?thesis
    using drip_recv_contract [OF assms]
    by (auto simp: conn_contract_def) (auto simp: drip_net_def)
qed

lemma drip_sends:
  "net_send (drip_net k) fd buf fl w = (ret, w') \<Longrightarrow> ret \<noteq> -1 \<and> (buf \<noteq> [] \<longrightarrow> ret \<noteq> 0)"
proof -
  assume "net_send (drip_net k) fd buf fl w = (ret, w')"
  then have ret: "ret = of_nat (min 2 (length buf))" by (cases w) (simp add: drip_net_def)
  have "unat ret = min 2 (length buf)" unfolding ret by (rule of_nat_min_2)
  moreover have "ret \<noteq> -1" unfolding ret by (rule of_nat_min_2)
  ultimately show ?thesis by (auto simp: min_def split: if_splits)
qed

theorem connection_answered_once_witness:
  "\<exists>w' sent rest. serve_connection (drip_net 3) \<lparr>stream_fd = 4\<rparr> echo_handler sample_limits ([], [5]) =
     Some (Inr (), w') \<and> snd w' = [5] @ sent \<and> sent @ rest = []"
proof -
  have silent: "read_request (drip_net 3) \<lparr>stream_fd = 4\<rparr> sample_limits ([], [5]) = (Inr None, ([], [5]))"
    by (simp add: read_request_def read_head.simps tcp_read_def recv_fd_def drip_recv cvt_ssize_def)
  then have run: "serve_connection (drip_net 3) \<lparr>stream_fd = 4\<rparr> echo_handler sample_limits ([], [5]) =
      Some (Inr (), snd (tcp_shutdown (drip_net 3) \<lparr>stream_fd = 4\<rparr> ShutBoth ([], [5])))"
    by (simp add: serve_connection_def respond_def)
  have "conn_contract (drip_net 3) \<lparr>stream_fd = 4\<rparr> fst snd" by (simp add: drip_conn_contract)
  from connection_answered_once [OF this _ run] silent run show ?thesis
    by (fastforce simp: echo_handler_def answer_def)
qed

theorem well_formed_request_is_answered_witness:
  "\<exists>w'. serve_connection (drip_net 3) \<lparr>stream_fd = 4\<rparr> echo_handler sample_limits
     (render_request sample_request, []) = Some (Inr (), w') \<and>
   snd w' = encode (with_body response_ok [7, 9])"
proof -
  have c: "conn_contract (drip_net 3) \<lparr>stream_fd = 4\<rparr> fst snd" "recv_reliable (drip_net 3) \<lparr>stream_fd = 4\<rparr>"
    by (simp_all add: drip_conn_contract drip_reliable)
  have "length (request_head sample_request) + 3 \<le> unat (max_header_bytes sample_limits)"
    by (simp add: sample_limit_values sample_head)
  from well_formed_request_is_answered [OF c(1) _ c(2) sample_wire this,
      of echo_handler "(render_request sample_request, [])" "[]", OF _ _ drip_sends]
  obtain w1 w' where "serve_connection (drip_net 3) \<lparr>stream_fd = 4\<rparr> echo_handler sample_limits
      (render_request sample_request, []) = Some (Inr (), w')"
    "snd w' = [] @ encode (fst (echo_handler sample_request w1))"
    by (force simp: echo_handler_def)
  then show ?thesis by (simp add: echo_handler_def sample_request_def)
qed

theorem refused_request_gets_400_witness:
  "\<exists>w'. serve_connection (drip_net 3) \<lparr>stream_fd = 4\<rparr> echo_handler sample_limits
     (bytes_of ''GET /'' @ double_crlf, []) = Some (Inr (), w') \<and> snd w' = encode bad_request"
proof -
  have c: "conn_contract (drip_net 3) \<lparr>stream_fd = 4\<rparr> fst snd" by (simp add: drip_conn_contract)
  have "CR \<notin> set ''GET /''" "str_valid ''GET /''" by (simp, rule str_valid_ascii, simp)
  note reads = head_of_reads [where hs = "[]", OF this, simplified, folded append_assoc]
  have "head_of ''GET /'' [] = ''GET /''" by (simp add: head_of_def)
  with reads(1) [of "[]"] reads(2,3) have "find_double_crlf (bytes_of ''GET /'' @ double_crlf) = Some 5"
    "from_utf8 (bytes_of ''GET /'') = Some ''GET /''" "split_crlf ''GET /'' = [''GET /'']"
    by simp_all
  moreover have "take 5 (bytes_of ''GET /'' @ double_crlf) = bytes_of ''GET /''" by simp
  moreover have "split_char (CHR '' '') ''GET /'' = [''GET'', ''/'']" by simp
  ultimately have "refused sample_limits (bytes_of ''GET /'' @ double_crlf)"
    by (simp add: refused_def parse_head_def)
  then have bad: "refused sample_limits (fst (bytes_of ''GET /'' @ double_crlf, [] :: u8 list))"
    by (simp only: fst_conv)
  have "\<exists>w'. (\<forall>handler. serve_connection (drip_net 3) \<lparr>stream_fd = 4\<rparr> handler sample_limits
       (bytes_of ''GET /'' @ double_crlf, []) = Some (Inr (), w')) \<and>
     snd w' = snd (bytes_of ''GET /'' @ double_crlf, [] :: u8 list) @ encode bad_request"
    by (rule refused_request_gets_400 [where pend = fst, OF c bad]) (rule drip_sends)
  then show ?thesis by (simp only: snd_conv append_Nil) blast
qed

section \<open>Who closes an accepted connection\<close>

text \<open>
  The descriptors the serving thread owns, as an observation of the system state: opening
  and accepting add one, closing removes one, and creating a thread passes the connection in
  its packet on to that thread. The other calls leave them alone.
\<close>

definition fd_calls :: "('w, 'x) net_sys_scheme \<Rightarrow> ('w \<Rightarrow> i32 multiset) \<Rightarrow> bool" where
  "fd_calls K own \<longleftrightarrow>
     (\<forall>d t q w r w'. net_socket K d t q w = (r, w') \<longrightarrow>
        own w' = (if r = -1 then own w else add_mset r (own w))) \<and>
     (\<forall>l sa len w r sa' w'. net_accept K l sa len w = ((r, sa'), w') \<longrightarrow>
        own w' = (if r = -1 then own w else add_mset r (own w))) \<and>
     (\<forall>fd w. own (snd (net_close K fd w)) = own w - {#fd#}) \<and>
     (\<forall>fd l n v len w. own (snd (net_setsockopt K fd l n v len w)) = own w) \<and>
     (\<forall>fd sa len w. own (snd (net_bind K fd sa len w)) = own w) \<and>
     (\<forall>fd n w. own (snd (net_listen K fd n w)) = own w)"

definition attr_calls :: "('w, 'p) thread_sys \<Rightarrow> ('w \<Rightarrow> 'o) \<Rightarrow> bool" where
  "attr_calls T own \<longleftrightarrow>
     (\<forall>a w. own (snd (pt_attr_init T a w)) = own w) \<and>
     (\<forall>a n w. own (snd (pt_attr_setstacksize T a n w)) = own w) \<and>
     (\<forall>a w. own (snd (pt_attr_destroy T a w)) = own w) \<and>
     (\<forall>h w. own (snd (pt_detach T h w)) = own w)"

definition ledger ::
  "('w, 'x) net_sys_scheme \<Rightarrow> ('w, connection packet) thread_sys \<Rightarrow> ('w \<Rightarrow> i32 multiset) \<Rightarrow> bool" where
  "ledger K T own \<longleftrightarrow> fd_calls K own \<and> attr_calls T own \<and>
     (\<forall>a pk w rc h w'. pt_create T a pk w = ((rc, h), w') \<longrightarrow>
        own w' = (if rc = 0 then own w - {#stream_fd (cn_stream (closure pk))#} else own w))"

lemma fd_call:
  assumes "fd_calls K own"
  shows "net_socket K d t q w = (r, w') \<Longrightarrow> own w' = (if r = -1 then own w else add_mset r (own w))"
    and "net_accept K l sa len w = ((r, sa'), w') \<Longrightarrow>
      own w' = (if r = -1 then own w else add_mset r (own w))"
    and "own (close_fd K fd w) = own w - {#fd#}"
    and "own (snd (net_setsockopt K fd i n v len w)) = own w"
    and "own (snd (net_bind K fd sa len w)) = own w"
    and "own (snd (net_listen K fd b w)) = own w"
  using assms unfolding fd_calls_def close_fd_def by (elim conjE; simp; fail)+

lemma attr_call:
  assumes "attr_calls T own"
  shows "own (snd (pt_attr_init T x w)) = own w"
    and "own (snd (pt_attr_setstacksize T x m w)) = own w"
    and "own (snd (pt_attr_destroy T x w)) = own w"
    and "own (snd (pt_detach T g w)) = own w"
  using assms unfolding attr_calls_def by (elim conjE; simp; fail)+

text \<open>What a thread's creation does to an observation is what \<^verbatim>\<open>pthread_create\<close> does to it.\<close>

lemma create_thread_observed:
  assumes attrs: "attr_calls T own"
    and creates: "\<And>a w rc h w'. pt_create T a pk w = ((rc, h), w') \<Longrightarrow> own w' = f rc (own w)"
    and "\<And>rc x. rc \<noteq> 0 \<Longrightarrow> f rc x = x" and "create_thread T stack pk w = ((rc, h), w')"
  shows "own w' = f rc (own w)"
proof (cases stack)
  case None
  with assms(4) creates show ?thesis by (simp add: create_thread_def)
next
  case (Some bytes)
  obtain i x w1 where init: "pt_attr_init T 0 w = ((i, x), w1)" by (metis prod.exhaust)
  obtain j y w2 where sets: "pt_attr_setstacksize T x bytes w1 = ((j, y), w2)" by (metis prod.exhaust)
  obtain k z w3 where made: "pt_create T (Some y) pk w2 = ((k, z), w3)" by (metis prod.exhaust)
  have "own w1 = own w" "own w2 = own w1"
    using attr_call(1) [OF attrs, of 0 w] attr_call(2) [OF attrs, of x bytes w1] init sets
    by simp_all
  with creates [OF made] attr_call(3) [OF attrs] assms(3,4) Some init sets made
  show ?thesis by (auto simp: create_thread_def split: if_splits)
qed

lemma ledger_parts:
  assumes "ledger K T own"
  shows "fd_calls K own" and "attr_calls T own"
  using assms by (simp_all add: ledger_def)

lemma create_thread_ledger:
  assumes "ledger K T own" and "create_thread T stack pk w = ((rc, h), w')"
  shows "own w' = (if rc = 0 then own w - {#stream_fd (cn_stream (closure pk))#} else own w)"
  using create_thread_observed [OF ledger_parts(2) [OF assms(1)] _ _ assms(2),
      where f = "\<lambda>rc x. if rc = 0 then x - {#stream_fd (cn_stream (closure pk))#} else x"] assms(1)
  by (auto simp: ledger_def)

text \<open>A spawned or failed connection is off the serving thread's hands either way.\<close>

lemma spawn_ledger:
  assumes "ledger K T own"
    and "builder_spawn T (drop_connection K) b c p = (r, p')"
  shows "own (os p') = own (os p) - {#stream_fd (cn_stream c)#}"
proof -
  let ?p2 = "arc_clone (fresh p) (snd (arc_new p))"
  let ?pk = "\<lparr>closure = c, packet_shared = fresh p\<rparr>"
  obtain rc h w where ct: "create_thread T (stack_size b) ?pk (os ?p2) = ((rc, h), w)"
    by (metis prod.exhaust)
  from create_thread_ledger [OF assms(1) ct] fd_call(3) [OF ledger_parts(1) [OF assms(1)]] assms(2) ct show ?thesis
    by (auto simp: builder_spawn_def Let_def drop_packet_def drop_connection_def
        drop_tcp_stream_def split: if_splits)
qed

lemma accept_ledger:
  assumes "fd_calls K own" and "tcp_accept K l w = (r, w')"
  shows "own w' = (case r of Inl _ \<Rightarrow> own w | Inr (s, _) \<Rightarrow> add_mset (stream_fd s) (own w))"
proof -
  obtain fd sa w1 where a: "net_accept K (listener_fd l) zeroed_sockaddr_in (SOCKADDR_IN_LEN K) w = ((fd, sa), w1)"
    by (metis prod.exhaust)
  from fd_call(2) [OF assms(1) a] assms(2) a show ?thesis
    by (auto simp: tcp_accept_def cvt_i32_def Let_def split: if_splits)
qed

lemma bind_ledger:
  assumes "fd_calls K own" and "tcp_bind K addr w = (r, w')"
  shows "own w' = (case r of Inl _ \<Rightarrow> own w | Inr l \<Rightarrow> add_mset (listener_fd l) (own w))"
proof -
  note calls = fd_call [OF assms(1)]
  have cvt: "snd (cvt_i32 K rw) = snd rw" for rw by (cases rw) (simp add: cvt_i32_def)
  have opts: "own (snd (setsockopt_int K fd i n v w)) = own w" for fd i n v w
    using calls(4) [of fd i n v 4 w] cvt [of "net_setsockopt K fd i n v 4 w"]
    by (auto simp: setsockopt_int_def and_then_def split: prod.splits sum.splits)
  show ?thesis
  proof (cases addr)
    case (V6 a)
    with assms(2) show ?thesis by (auto simp: tcp_bind_def require_v4_def)
  next
    case (V4 a)
    obtain rs w1 where sock: "new_socket K (SOCK_STREAM K) w = (rs, w1)" by (metis prod.exhaust)
    have own1: "own w1 = (case rs of Inl _ \<Rightarrow> own w | Inr fd \<Rightarrow> add_mset fd (own w))"
      using sock calls(1) [of "AF_INET K" "SOCK_STREAM K" 0 w]
      by (auto simp: new_socket_def cvt_i32_def split: prod.splits if_splits)
    show ?thesis
    proof (cases rs)
      case (Inl e)
      with assms(2) V4 sock own1 show ?thesis by (auto simp: tcp_bind_def require_v4_def)
    next
      case (Inr fd)
      let ?drop = "drop_tcp_listener K \<lparr>listener_fd = fd\<rparr>"
      have drops: "own (?drop w) = own w - {#fd#}" for w
        by (simp add: drop_tcp_listener_def calls(3))
      have binds: "own (snd (cvt_i32 K (net_bind K fd sa len w))) = own w"
        "own (snd (cvt_i32 K (net_listen K fd n w))) = own w" for sa len n w
        by (simp_all add: cvt calls(5,6))
      from assms(2) V4 sock own1 Inr
        opts [of fd "SOL_SOCKET K" "SO_REUSEADDR K" 1 w1] binds(1) [of "to_sockaddr_in K a" "SOCKADDR_IN_LEN K"]
        binds(2) [of 128]
      show ?thesis
        by (auto simp: tcp_bind_def require_v4_def Let_def then_or_drop_def drops
            split: prod.splits sum.splits)
           (metis add_mset_remove_trivial snd_conv)+
    qed
  qed
qed

lemma accept_loop_ledger:
  assumes "ledger K T own" and "accept_loop K T sv l p = Some (e, p')"
  shows "own (os p') = own (os p) \<and> \<not> is_interrupt K e \<and> (\<exists>w w'. tcp_accept K l w = (Inl e, w'))"
proof -
  let ?P = "\<lambda>K T (sv :: server) l p ep. ledger K T own \<longrightarrow>
    own (os (snd ep)) = own (os p) \<and> \<not> is_interrupt K (fst ep) \<and>
    (\<exists>w w'. tcp_accept K l w = (Inl (fst ep), w'))"
  have "?P K T sv l p (e, p')"
  proof (rule accept_loop.raw_induct [where P = ?P, OF _ assms(2)], intro impI)
    fix loop K T l p ep and sv :: server
    assume IH: "\<And>K T sv l p ep. loop K T sv l p = Some ep \<Longrightarrow> ?P K T sv l p ep"
      and eq: "(case tcp_accept K l (os p) of
          (Inr (stream, _), w1) \<Rightarrow>
            (case builder_spawn T (drop_connection K)
                    (builder_stack_size builder_new (sv_stack_size sv))
                    \<lparr>cn_stream = stream, cn_limits = sv_limits sv\<rparr> (p\<lparr>os := w1\<rparr>) of
               (Inl _, p2) \<Rightarrow> loop K T sv l p2
             | (Inr h, p2) \<Rightarrow> loop K T sv l (drop_join_handle T h p2))
        | (Inl e, w1) \<Rightarrow>
            if is_interrupt K e then loop K T sv l (p\<lparr>os := w1\<rparr>) else Some (e, p\<lparr>os := w1\<rparr>)) = Some ep"
      and led: "ledger K T own"
    show "own (os (snd ep)) = own (os p) \<and> \<not> is_interrupt K (fst ep) \<and>
        (\<exists>w w'. tcp_accept K l w = (Inl (fst ep), w'))"
    proof (cases "tcp_accept K l (os p)")
      case (Pair r w1)
      note own1 = accept_ledger [OF ledger_parts(1) [OF led] Pair]
      show ?thesis
      proof (cases r)
        case (Inl e)
        have "\<exists>w w'. tcp_accept K l w = (Inl e, w')" using Pair Inl by blast
        show ?thesis
        proof (cases "is_interrupt K e")
          case True
          with Pair Inl eq own1 IH [of K T sv l "p\<lparr>os := w1\<rparr>" ep] led show ?thesis by simp
        next
          case False
          with Pair Inl eq have "ep = (e, p\<lparr>os := w1\<rparr>)" by simp
          with False own1 Inl \<open>\<exists>w w'. tcp_accept K l w = (Inl e, w')\<close> show ?thesis by simp
        qed
      next
        case (Inr sp)
        obtain s peer where sp: "sp = (s, peer)" by (cases sp)
        obtain rs p2 where sw: "builder_spawn T (drop_connection K)
            (builder_stack_size builder_new (sv_stack_size sv))
            \<lparr>cn_stream = s, cn_limits = sv_limits sv\<rparr> (p\<lparr>os := w1\<rparr>) = (rs, p2)"
          by (metis prod.exhaust)
        have own2: "own (os p2) = own (os p)"
          using spawn_ledger [OF led sw] own1 Inr sp by simp
        have "own (os (drop_join_handle T h p2)) = own (os p2)" for h
          using attr_call(4) [OF ledger_parts(2) [OF led]] by (simp add: drop_join_handle_def)
        with Pair Inr sp sw eq own2 IH [of K T sv l p2 ep] led
          IH [of K T sv l "drop_join_handle T h p2" ep for h] show ?thesis
          by (cases rs) auto
      qed
    qed
  qed
  with assms(1) show ?thesis by simp
qed

text \<open>
  C10: serving ends only because the listener cannot be made, or because its \<^verbatim>\<open>accept\<close> fails
  with something else than an interruption; until then every accepted connection is passed
  on to its thread or closed, and when serving ends, the listener too: the serving thread
  owns the descriptors it owned before, no more and no fewer.
\<close>

theorem serve_leaks_no_descriptor:
  assumes "ledger K T own" and "serve K T sv addr p = Some (e, p')"
  shows "own (os p') = own (os p) \<and>
    (tcp_bind K addr (os p) = (Inl e, os p') \<or>
     \<not> is_interrupt K e \<and> (\<exists>l w w'. tcp_accept K l w = (Inl e, w')))"
proof (cases "tcp_bind K addr (os p)")
  case (Pair r w1)
  note own1 = bind_ledger [OF ledger_parts(1) [OF assms(1)] Pair]
  show ?thesis
  proof (cases r)
    case (Inl e')
    with Pair own1 assms(2) show ?thesis by (auto simp: serve_def)
  next
    case (Inr l)
    with Pair assms(2) obtain p2 where loop: "accept_loop K T sv l (p\<lparr>os := w1\<rparr>) = Some (e, p2)"
      and p': "p' = p2\<lparr>os := drop_tcp_listener K l (os p2)\<rparr>"
      by (auto simp: serve_def split: option.splits)
    have "own (os p') = own (os p2) - {#listener_fd l#}"
      using fd_call(3) [OF ledger_parts(1) [OF assms(1)]] by (simp add: p' drop_tcp_listener_def)
    with accept_loop_ledger [OF assms(1) loop] own1 Inr show ?thesis by auto
  qed
qed


text \<open>What neither the connection's socket calls nor the handler touch, a connection leaves as it was.\<close>

lemma serve_connection_keeps:
  assumes reads: "\<And>buf w r buf' w'. tcp_read K s buf w = (r, buf', w') \<Longrightarrow> f w' = f w"
    and writes: "\<And>buf w r w'. tcp_write K s buf w = (r, w') \<Longrightarrow> f w' = f w"
    and shuts: "\<And>w. f (snd (tcp_shutdown K s ShutBoth w)) = f w"
    and handles: "\<And>req w. f (snd (handler req w)) = f w"
    and serves: "serve_connection K s handler lim w = Some (Inr x, w')"
  shows "f w' = f w"
proof -
  have responds: "f w2 = f w1" if "respond K s resp w1 = Some (Inr x, w2)" for resp w1 w2
  proof -
    from respond_cases [OF that] obtain r1 w3 where wr: "write_response K s resp w1 = Some (r1, w3)"
      and w2: "w2 = snd (tcp_shutdown K s ShutBoth w3)"
      by auto
    have "f w3 = f w1"
      using wr pump_keeps [of "tcp_write K s" f, OF writes]
      by (simp add: write_response_def tcp_write_all_pump)
    then show ?thesis using shuts by (simp add: w2)
  qed
  obtain rr w1 where rd: "read_request K s lim w = (rr, w1)" by (metis prod.exhaust)
  have f1: "f w1 = f w" using read_request_keeps [of K s f lim w, OF reads] rd by simp
  from serve_connection_cases [OF serves rd] show ?thesis
  proof (elim disjE exE conjE)
    fix req assume "respond K s (fst (handler req w1)) (snd (handler req w1)) = Some (Inr x, w')"
    from responds [OF this] show ?thesis using handles [of req w1] f1 by simp
  next
    fix e assume "respond K s bad_request w1 = Some (Inr x, w')"
    from responds [OF this] show ?thesis using f1 by simp
  qed (use shuts f1 in simp_all)
qed

text \<open>
  The thread that took a connection over closes it, once, as its last act: when the
  connection's closure returns, the descriptors closed on its way are those the handler
  closed, and then the connection's own.
\<close>

lemma connection_thread_closes_its_stream:
  assumes "run_connection (traced K) handler c (w, t) = Some (u, w', t')"
    and "\<And>req wt. snd (snd (handler req wt)) = snd wt"
  shows "t' = t @ [FdClose (stream_fd (cn_stream c))]"
proof -
  let ?K = "traced K" and ?s = "cn_stream c"
  have reads: "snd w' = snd w" if "tcp_read ?K ?s buf w = (r, buf', w')" for buf w r buf' w'
    using that by (auto simp: tcp_read_def recv_fd_def traced_def on_state_def cvt_ssize_def
        split: prod.splits if_splits)
  have writes: "snd w' = snd w" if "tcp_write ?K ?s buf w = (r, w')" for buf w r w'
    using that by (auto simp: tcp_write_def send_fd_def traced_def on_state_def cvt_ssize_def
        split: prod.splits if_splits)
  have shuts: "snd (snd (tcp_shutdown ?K ?s how w)) = snd w" for how w
    by (cases w) (auto simp: tcp_shutdown_def Let_def trace_simps cvt_i32_def split: prod.splits)
  from assms(1) obtain x w2 where serves: "serve_connection ?K ?s handler (cn_limits c) (w, t) = Some (Inr x, w2)"
    and w2: "(w', t') = drop_connection ?K c w2"
    by (auto simp: run_connection_def split: option.splits sum.splits)
  have "snd w2 = t"
    using serve_connection_keeps [where f = snd, OF reads writes shuts assms(2) serves] by simp
  with w2 show ?thesis by (cases w2) (simp add: drop_connection_def trace_simps)
qed

theorem connection_thread_closes_its_stream_witness:
  "\<exists>w'. run_connection (traced (drip_net 3)) echo_handler
     \<lparr>cn_stream = \<lparr>stream_fd = 4\<rparr>, cn_limits = sample_limits\<rparr> (([], [5]), []) =
       Some ((), w', [FdClose 4])"
proof -
  let ?c = "\<lparr>cn_stream = \<lparr>stream_fd = 4\<rparr>, cn_limits = sample_limits\<rparr>"
  have "net_recv (traced (drip_net 3)) fd n fl (([], [5]), []) = ((0, []), ([], [5]), [])" for fd n fl
    by (simp add: trace_simps drip_recv)
  then have "read_request (traced (drip_net 3)) \<lparr>stream_fd = 4\<rparr> sample_limits (([], [5]), []) =
      (Inr None, ([], [5]), [])"
    by (simp add: read_request_def read_head.simps tcp_read_def recv_fd_def cvt_ssize_def)
  then have "run_connection (traced (drip_net 3)) echo_handler ?c (([], [5]), []) =
      Some ((), drop_connection (traced (drip_net 3)) ?c
        (snd (tcp_shutdown (traced (drip_net 3)) \<lparr>stream_fd = 4\<rparr> ShutBoth (([], [5]), []))))"
    by (simp add: run_connection_def serve_connection_def)
  then obtain u w' t' where run:
    "run_connection (traced (drip_net 3)) echo_handler ?c (([], [5]), []) = Some (u, w', t')"
    by (metis prod.exhaust)
  from connection_thread_closes_its_stream [OF this] run show ?thesis
    by (auto simp: echo_handler_def)
qed

text \<open>
  A system for the example: its state is the descriptors the serving thread owns and the
  number of clients to come. Sockets are 3, connections 5; with no more clients \<^verbatim>\<open>accept\<close>
  fails with \<^verbatim>\<open>EMFILE\<close>.
\<close>

definition quota_net :: "(i32 list \<times> nat) net_sys" where
  "quota_net = inert_net
     \<lparr>sys_errno := (\<lambda>_. 24),
      net_socket := (\<lambda>_ _ _ (o', n). (3, (3 # o', n))),
      net_setsockopt := (\<lambda>_ _ _ _ _ w. (0, w)), net_bind := (\<lambda>_ _ _ w. (0, w)),
      net_listen := (\<lambda>_ _ w. (0, w)),
      net_accept := (\<lambda>_ sa _ (o', n). if n = 0 then ((-1, sa), (o', n)) else ((5, sa), (5 # o', n - 1))),
      net_close := (\<lambda>fd (o', n). (0, (remove1 fd o', n)))\<rparr>"

definition quota_threads :: "(i32 list \<times> nat, connection packet) thread_sys" where
  "quota_threads = calm_threads
     \<lparr>pt_create := (\<lambda>_ pk (o', n). ((0, 1), (remove1 (stream_fd (cn_stream (closure pk))) o', n)))\<rparr>"

lemma quota_ledger: "ledger quota_net quota_threads (\<lambda>w. mset (fst w))"
  unfolding ledger_def fd_calls_def attr_calls_def quota_net_def quota_threads_def inert_net_def calm_threads_def
  by (auto split: if_splits)

lemma quota_bind:
  "tcp_bind quota_net (V4 a) (o', n) = (Inr \<lparr>listener_fd = 3\<rparr>, (3 # o', n))"
  by (simp add: tcp_bind_def require_v4_def new_socket_def setsockopt_int_def cvt_i32_def Let_def
      quota_net_def inert_net_def)

lemma quota_accept:
  "tcp_accept quota_net l (o', 0) = (Inl (Os (Errno 24)), (o', 0))"
  "\<exists>peer. tcp_accept quota_net l (o', Suc n) = (Inr (\<lparr>stream_fd = 5\<rparr>, peer), (5 # o', n))"
  by (simp_all add: tcp_accept_def cvt_i32_def Let_def last_os_def errno_last_def quota_net_def
      inert_net_def)

lemma quota_eintr: "\<not> interrupted quota_net (Errno 24)"
  by (simp add: interrupted_def quota_net_def inert_net_def)

lemma quota_loop_end:
  "os p = (o', 0) \<Longrightarrow> \<exists>p'. accept_loop quota_net quota_threads sv l p = Some (Os (Errno 24), p')"
  by (subst accept_loop.simps) (simp add: quota_accept quota_eintr)

lemma quota_drop: "os (drop_join_handle quota_threads h p) = os p"
  by (simp add: drop_join_handle_def quota_threads_def calm_threads_def)

lemma quota_spawn:
  assumes "os p = (5 # o', n)"
  shows "\<exists>h p2. builder_spawn quota_threads d b \<lparr>cn_stream = \<lparr>stream_fd = 5\<rparr>, cn_limits = lim\<rparr> p =
      (Inr h, p2) \<and> os p2 = (o', n)"
  using assms
  by (cases "stack_size b")
     (simp_all add: builder_spawn_def Let_def create_thread_def quota_threads_def calm_threads_def)

lemma quota_loop:
  assumes "os p = (o', 1)"
  shows "\<exists>p'. accept_loop quota_net quota_threads sv l p = Some (Os (Errno 24), p')"
proof -
  obtain peer where acc: "tcp_accept quota_net l (os p) = (Inr (\<lparr>stream_fd = 5\<rparr>, peer), (5 # o', 0))"
    using quota_accept(2) [of l o' 0] assms by auto
  obtain h p2 where sp: "builder_spawn quota_threads (drop_connection quota_net)
      (builder_stack_size builder_new (sv_stack_size sv))
      \<lparr>cn_stream = \<lparr>stream_fd = 5\<rparr>, cn_limits = sv_limits sv\<rparr> (p\<lparr>os := (5 # o', 0)\<rparr>) = (Inr h, p2)"
    and os2: "os p2 = (o', 0)"
    using quota_spawn [of "p\<lparr>os := (5 # o', 0)\<rparr>" o' 0] by simp blast
  have "accept_loop quota_net quota_threads sv l p =
      accept_loop quota_net quota_threads sv l (drop_join_handle quota_threads h p2)"
    by (subst accept_loop.simps) (simp add: acc sp)
  then show ?thesis using quota_loop_end [of "drop_join_handle quota_threads h p2"] os2
    by (simp add: quota_drop)
qed

theorem serve_leaks_no_descriptor_witness:
  "\<exists>p' :: (unit, i32 list \<times> nat) proc.
     serve quota_net quota_threads server_new (V4 \<lparr>v4_ip = (0, 0, 0, 0), v4_port = 80\<rparr>)
       (empty_proc ([9], 1)) = Some (Os (Errno 24), p') \<and> mset (fst (os p')) = {#9#}"
proof -
  let ?p = "empty_proc ([9], 1) :: (unit, i32 list \<times> nat) proc"
  obtain p1 where "accept_loop quota_net quota_threads server_new \<lparr>listener_fd = 3\<rparr>
      (?p\<lparr>os := ([3, 9], 1)\<rparr>) = Some (Os (Errno 24), p1)"
    using quota_loop [of "?p\<lparr>os := ([3, 9], 1)\<rparr>" "[3, 9]"] by auto
  then obtain p' where run: "serve quota_net quota_threads server_new
      (V4 \<lparr>v4_ip = (0, 0, 0, 0), v4_port = 80\<rparr>) ?p = Some (Os (Errno 24), p')"
    by (simp add: serve_def quota_bind empty_proc_def)
  from serve_leaks_no_descriptor [OF quota_ledger this] run show ?thesis
    by (auto simp: empty_proc_def)
qed

end
