(* ===== verification/Server_System.thy ===== *)
theory Server_System
  imports Http_Server
begin

text \<open>
  The server as a whole: the thread in \<^verbatim>\<open>Server::serve\<close> and the threads of its connections,
  sharing one process, as a step relation. The accept loop and the entry point of a thread are
  the definitions of \<open>Http_Server\<close> and \<open>Thread\<close> cut at the points where threads interleave;
  the run of \<open>serve\<close> without interleaving is one run of the system.
\<close>

datatype serving = Accepting | Holding tcp_stream | Stopped error

record 'w system =
  sy_proc :: "(unit, 'w) proc"
  sy_serving :: serving
  sy_threads :: "nat \<Rightarrow> (connection, unit) thread_phase option" \<comment> \<open>by their result slots\<close>
  sy_handler :: nat  \<comment> \<open>the references to the shared handler, which is dropped at 0\<close>

text \<open>
  \<open>accepted\<close>, \<open>again\<close> and \<open>stopped\<close> are the outcomes of one \<^verbatim>\<open>accept\<close>; \<open>spawned\<close> and \<open>refused\<close>
  those of the \<^verbatim>\<open>spawn\<close> after it, the handle being dropped at once. \<open>call\<close>, \<open>store\<close> and
  \<open>release\<close> are the three acts of a thread's entry point; the system calls of one \<open>call\<close> are
  taken together, as are those of one \<open>spawned\<close>. The reference to the handler that a new
  connection's closure captures is cloned before the \<^verbatim>\<open>spawn\<close> and dropped with the closure; the
  serving thread drops its own when it returns. \<open>env\<close> is what happens to the system
  state between the calls of this process (peers sending and closing, time passing).
\<close>

inductive server_step ::
  "('w, 'x) net_sys_scheme \<Rightarrow> ('w, connection packet) thread_sys \<Rightarrow> (request \<Rightarrow> 'w \<Rightarrow> response \<times> 'w) \<Rightarrow>
   ('w \<Rightarrow> 'w \<Rightarrow> bool) \<Rightarrow> server \<Rightarrow> tcp_listener \<Rightarrow> 'w system \<Rightarrow> 'w system \<Rightarrow> bool"
  for K T handler env sv l
where
  accepted: "sy_serving s = Accepting \<Longrightarrow> tcp_accept K l (os (sy_proc s)) = (Inr (stream, peer), w1) \<Longrightarrow>
    server_step K T handler env sv l s
      (s\<lparr>sy_proc := (sy_proc s)\<lparr>os := w1\<rparr>, sy_serving := Holding stream,
         sy_handler := Suc (sy_handler s)\<rparr>)"
| again: "sy_serving s = Accepting \<Longrightarrow> tcp_accept K l (os (sy_proc s)) = (Inl e, w1) \<Longrightarrow>
    is_interrupt K e \<Longrightarrow>
    server_step K T handler env sv l s (s\<lparr>sy_proc := (sy_proc s)\<lparr>os := w1\<rparr>\<rparr>)"
| stopped: "sy_serving s = Accepting \<Longrightarrow> tcp_accept K l (os (sy_proc s)) = (Inl e, w1) \<Longrightarrow>
    \<not> is_interrupt K e \<Longrightarrow>
    server_step K T handler env sv l s
      (s\<lparr>sy_proc := (sy_proc s)\<lparr>os := drop_tcp_listener K l w1\<rparr>, sy_serving := Stopped e,
         sy_handler := sy_handler s - 1\<rparr>)"
| spawned: "sy_serving s = Holding stream \<Longrightarrow> c = \<lparr>cn_stream = stream, cn_limits = sv_limits sv\<rparr> \<Longrightarrow>
    builder_spawn T (drop_connection K) (builder_stack_size builder_new (sv_stack_size sv))
      c (sy_proc s) = (Inr h, p2) \<Longrightarrow>
    server_step K T handler env sv l s
      (s\<lparr>sy_proc := drop_join_handle T h p2, sy_serving := Accepting,
         sy_threads := (sy_threads s)(handle_shared h \<mapsto>
           Ready \<lparr>closure = c, packet_shared = handle_shared h\<rparr>)\<rparr>)"
| refused: "sy_serving s = Holding stream \<Longrightarrow> c = \<lparr>cn_stream = stream, cn_limits = sv_limits sv\<rparr> \<Longrightarrow>
    builder_spawn T (drop_connection K) (builder_stack_size builder_new (sv_stack_size sv))
      c (sy_proc s) = (Inl e, p2) \<Longrightarrow>
    server_step K T handler env sv l s
      (s\<lparr>sy_proc := p2, sy_serving := Accepting, sy_handler := sy_handler s - 1\<rparr>)"
| call: "sy_threads s i = Some (Ready pk) \<Longrightarrow>
    run_connection K handler (closure pk) (os (sy_proc s)) = Some (u, w1) \<Longrightarrow>
    server_step K T handler env sv l s
      (s\<lparr>sy_proc := (sy_proc s)\<lparr>os := w1\<rparr>, sy_threads := (sy_threads s)(i \<mapsto> Returned (packet_shared pk) u),
         sy_handler := sy_handler s - 1\<rparr>)"
| store: "sy_threads s i = Some (Returned a u) \<Longrightarrow>
    server_step K T handler env sv l s
      (s\<lparr>sy_proc := slot_store a u (sy_proc s), sy_threads := (sy_threads s)(i \<mapsto> Stored a u)\<rparr>)"
| release: "sy_threads s i = Some (Stored a u) \<Longrightarrow>
    server_step K T handler env sv l s
      (s\<lparr>sy_proc := arc_drop a (sy_proc s), sy_threads := (sy_threads s)(i := None)\<rparr>)"
| outside: "env (os (sy_proc s)) w1 \<Longrightarrow>
    server_step K T handler env sv l s (s\<lparr>sy_proc := (sy_proc s)\<lparr>os := w1\<rparr>\<rparr>)"

definition system_start :: "(unit, 'w) proc \<Rightarrow> 'w system" where
  "system_start p = \<lparr>sy_proc = p, sy_serving = Accepting, sy_threads = (\<lambda>_. None), sy_handler = 1\<rparr>"

section \<open>The accept loop is a run of the system\<close>

lemma accept_loop_steps:
  assumes "accept_loop K T sv l p = Some (e, p')"
  shows "\<exists>m' n'. (server_step K T handler env sv l)\<^sup>*\<^sup>*
      \<lparr>sy_proc = p, sy_serving = Accepting, sy_threads = m, sy_handler = n\<rparr>
      \<lparr>sy_proc = p'\<lparr>os := drop_tcp_listener K l (os p')\<rparr>, sy_serving = Stopped e, sy_threads = m', sy_handler = n'\<rparr>"
proof -
  let ?P = "\<lambda>K T sv l p ep. \<forall>m n. \<exists>m' n'. (server_step K T handler env sv l)\<^sup>*\<^sup>*
      \<lparr>sy_proc = p, sy_serving = Accepting, sy_threads = m, sy_handler = n\<rparr>
      \<lparr>sy_proc = (snd ep)\<lparr>os := drop_tcp_listener K l (os (snd ep))\<rparr>, sy_serving = Stopped (fst ep),
        sy_threads = m', sy_handler = n'\<rparr>"
  have "?P K T sv l p (e, p')"
  proof (rule accept_loop.raw_induct [where P = ?P, OF _ assms], intro allI)
    fix loop K T l p ep m n and sv :: server
    assume IH: "\<And>K T sv l p ep. loop K T sv l p = Some ep \<Longrightarrow> ?P K T sv l p ep"
      and eq: "(case tcp_accept K l (os p) of
          (Inr (stream, _), w1) \<Rightarrow>
            (case builder_spawn T (drop_connection K)
                    (builder_stack_size builder_new (sv_stack_size sv))
                    \<lparr>cn_stream = stream, cn_limits = sv_limits sv\<rparr> (p\<lparr>os := w1\<rparr>) of
               (Inl _, p2) \<Rightarrow> loop K T sv l p2
             | (Inr h, p2) \<Rightarrow> loop K T sv l (drop_join_handle T h p2))
        | (Inl e, w1) \<Rightarrow>
            if is_interrupt K e then loop K T sv l (p\<lparr>os := w1\<rparr>) else Some (e, p\<lparr>os := w1\<rparr>)) = Some ep"
    let ?R = "server_step K T handler env sv l"
    let ?s = "\<lparr>sy_proc = p, sy_serving = Accepting, sy_threads = m, sy_handler = n\<rparr>"
    let ?fin = "\<lambda>m' n'. \<lparr>sy_proc = (snd ep)\<lparr>os := drop_tcp_listener K l (os (snd ep))\<rparr>,
      sy_serving = Stopped (fst ep), sy_threads = m', sy_handler = n'\<rparr>"
    have onward: "\<exists>m' n'. ?R\<^sup>*\<^sup>* ?s (?fin m' n')"
      if "?R\<^sup>*\<^sup>* ?s \<lparr>sy_proc = p2, sy_serving = Accepting, sy_threads = m2, sy_handler = n2\<rparr>" "loop K T sv l p2 = Some ep"
      for p2 m2 n2
      using that(1) IH [OF that(2)] by (meson rtranclp_trans)
    obtain r w1 where acc: "tcp_accept K l (os p) = (r, w1)" by (metis prod.exhaust)
    show "\<exists>m' n'. ?R\<^sup>*\<^sup>* ?s (?fin m' n')"
    proof (cases r)
      case (Inl e)
      show ?thesis
      proof (cases "is_interrupt K e")
        case True
        with acc Inl have "?R ?s (?s\<lparr>sy_proc := (sy_proc ?s)\<lparr>os := w1\<rparr>\<rparr>)"
          by (intro server_step.again [of ?s]) simp_all
        with True eq acc Inl onward [OF r_into_rtranclp, of "p\<lparr>os := w1\<rparr>" m n]
          show ?thesis by simp
      next
        case False
        with eq acc Inl have ep: "ep = (e, p\<lparr>os := w1\<rparr>)" by simp
        from False acc Inl have "?R ?s (?s\<lparr>sy_proc := (sy_proc ?s)\<lparr>os := drop_tcp_listener K l w1\<rparr>,
            sy_serving := Stopped e, sy_handler := sy_handler ?s - 1\<rparr>)"
          by (intro server_step.stopped [of ?s]) simp_all
        then have "?R ?s (?fin m (n - 1))" by (simp add: ep)
        then show ?thesis by blast
      qed
    next
      case (Inr sp)
      obtain stream peer where sp: "sp = (stream, peer)" by (cases sp)
      let ?c = "\<lparr>cn_stream = stream, cn_limits = sv_limits sv\<rparr>"
      let ?t = "?s\<lparr>sy_proc := (sy_proc ?s)\<lparr>os := w1\<rparr>, sy_serving := Holding stream,
        sy_handler := Suc (sy_handler ?s)\<rparr>"
      have "?R ?s ?t" using acc Inr sp by (intro server_step.accepted [of ?s]) simp_all
      moreover obtain rs p2 where sw: "builder_spawn T (drop_connection K)
          (builder_stack_size builder_new (sv_stack_size sv)) ?c (p\<lparr>os := w1\<rparr>) = (rs, p2)"
        by (metis prod.exhaust)
      ultimately show ?thesis
      proof (cases rs)
        case (Inl e)
        with sw have "?R ?t (?t\<lparr>sy_proc := p2, sy_serving := Accepting,
            sy_handler := sy_handler ?t - 1\<rparr>)"
          by (intro server_step.refused [of ?t]) simp_all
        with \<open>?R ?s ?t\<close> have "?R\<^sup>*\<^sup>* ?s \<lparr>sy_proc = p2, sy_serving = Accepting, sy_threads = m, sy_handler = n\<rparr>" by simp
        then show ?thesis using onward eq acc Inr sp sw Inl by simp
      next
        case (Inr h)
        let ?m = "m(handle_shared h \<mapsto> Ready \<lparr>closure = ?c, packet_shared = handle_shared h\<rparr>)"
        from Inr sw have "?R ?t (?t\<lparr>sy_proc := drop_join_handle T h p2, sy_serving := Accepting,
            sy_threads := (sy_threads ?t)(handle_shared h \<mapsto>
              Ready \<lparr>closure = ?c, packet_shared = handle_shared h\<rparr>)\<rparr>)"
          by (intro server_step.spawned [of ?t]) simp_all
        with \<open>?R ?s ?t\<close> have "?R\<^sup>*\<^sup>* ?s
            \<lparr>sy_proc = drop_join_handle T h p2, sy_serving = Accepting, sy_threads = ?m, sy_handler = Suc n\<rparr>" by simp
        then show ?thesis using onward eq acc \<open>r = Inr sp\<close> sp sw Inr by simp
      qed
    qed
  qed
  then show ?thesis by simp
qed

section \<open>What the system owns\<close>

text \<open>
  The open descriptors of the process, as an observation of the system state: the calls of the
  server open and close what they say, the handler and the world outside leave them alone.
\<close>

definition system_fd_calls ::
  "('w, 'x) net_sys_scheme \<Rightarrow> ('w, connection packet) thread_sys \<Rightarrow> (request \<Rightarrow> 'w \<Rightarrow> response \<times> 'w) \<Rightarrow>
   ('w \<Rightarrow> 'w \<Rightarrow> bool) \<Rightarrow> ('w \<Rightarrow> i32 multiset) \<Rightarrow> bool" where
  "system_fd_calls K T handler env fds \<longleftrightarrow> fd_calls K fds \<and> attr_calls T fds \<and>
     (\<forall>a pk w. fds (snd (pt_create T a pk w)) = fds w) \<and>
     (\<forall>fd n fl w. fds (snd (net_recv K fd n fl w)) = fds w) \<and>
     (\<forall>fd buf fl w. fds (snd (net_send K fd buf fl w)) = fds w) \<and>
     (\<forall>fd how w. fds (snd (net_shutdown K fd how w)) = fds w) \<and>
     (\<forall>req w. fds (snd (handler req w)) = fds w) \<and>
     (\<forall>w w'. env w w' \<longrightarrow> fds w' = fds w)"

definition phase_fds :: "(connection, unit) thread_phase option \<Rightarrow> i32 multiset" where
  "phase_fds t = (case t of Some (Ready pk) \<Rightarrow> {#stream_fd (cn_stream (closure pk))#} | _ \<Rightarrow> {#})"

definition serving_fds :: "tcp_listener \<Rightarrow> serving \<Rightarrow> i32 multiset" where
  "serving_fds l m =
     (case m of
        Accepting \<Rightarrow> {#listener_fd l#}
      | Holding s \<Rightarrow> {#listener_fd l, stream_fd s#}
      | Stopped _ \<Rightarrow> {#})"

definition system_fds :: "tcp_listener \<Rightarrow> 'w system \<Rightarrow> i32 multiset" where
  "system_fds l s =
     serving_fds l (sy_serving s) + (\<Sum>i<fresh (sy_proc s). phase_fds (sy_threads s i))"

text \<open>
  The serving thread has a reference to the handler with its listener, and every accepted
  connection has one with its stream: the references are as many as the descriptors.
\<close>

definition thread_cell :: "(connection, unit) thread_phase \<Rightarrow> unit shared" where
  "thread_cell t = \<lparr>strong = 1, slot = stored_value t\<rparr>"

definition thread_slot :: "(connection, unit) thread_phase \<Rightarrow> nat option" where
  "thread_slot t =
     (case t of Ready pk \<Rightarrow> Some (packet_shared pk) | Returned a _ \<Rightarrow> Some a
      | Stored a _ \<Rightarrow> Some a | Finished _ \<Rightarrow> None)"

definition system_inv ::
  "('w \<Rightarrow> i32 multiset) \<Rightarrow> tcp_listener \<Rightarrow> i32 multiset \<Rightarrow> (unit, 'w) proc \<Rightarrow> 'w system \<Rightarrow> bool" where
  "system_inv fds l base p s \<longleftrightarrow>
     fds (os (sy_proc s)) = base + system_fds l s \<and>
     sy_handler s = size (system_fds l s) \<and>
     fresh p \<le> fresh (sy_proc s) \<and>
     (\<forall>i t. sy_threads s i = Some t \<longrightarrow>
        fresh p \<le> i \<and> i < fresh (sy_proc s) \<and> thread_slot t = Some i) \<and>
     (\<forall>i. cells (sy_proc s) i = (case sy_threads s i of None \<Rightarrow> cells p i | Some t \<Rightarrow> Some (thread_cell t)))"

lemma phase_fds_simps [simp]:
  "phase_fds None = {#}"
  "phase_fds (Some (Ready pk)) = {#stream_fd (cn_stream (closure pk))#}"
  "phase_fds (Some (Returned a u)) = {#}"
  "phase_fds (Some (Stored a u)) = {#}"
  by (simp_all add: phase_fds_def)

lemma sum_phase_update:
  assumes "i < (n :: nat)"
  shows "(\<Sum>j<n. phase_fds ((m(i := x)) j)) + phase_fds (m i) = (\<Sum>j<n. phase_fds (m j)) + phase_fds x"
proof -
  have "(\<Sum>j<n. phase_fds (g j)) = phase_fds (g i) + (\<Sum>j\<in>{..<n} - {i}. phase_fds (g j))" for g
    using assms by (intro sum.remove) simp_all
  from this [of m] this [of "m(i := x)"] show ?thesis by (simp add: ac_simps)
qed

lemma system_fd_parts:
  assumes "system_fd_calls K T handler env fds"
  shows "fd_calls K fds" and "attr_calls T fds"
    and "pt_create T a pk w = ((rc, h), w') \<Longrightarrow> fds w' = fds w" and "env w w' \<Longrightarrow> fds w' = fds w"
  using assms unfolding system_fd_calls_def by (blast | metis snd_conv)+

lemma connection_run_fds:
  assumes c: "system_fd_calls K T handler env fds" and "run_connection K handler c w = Some (u, w')"
  shows "fds w' = fds w - {#stream_fd (cn_stream c)#}"
proof -
  let ?s = "cn_stream c"
  have calls: "fds (snd (net_recv K fd n fl w)) = fds w" "fds (snd (net_send K fd buf fl w)) = fds w"
    "fds (snd (net_shutdown K fd how w)) = fds w" "fds (snd (handler req w)) = fds w" for fd n fl buf how req w
    using c by (auto simp: system_fd_calls_def)
  have reads: "fds w' = fds w" if "tcp_read K ?s buf w = (r, buf', w')" for buf w r buf' w'
    using that calls(1) [of "stream_fd ?s" "length buf" 0 w]
    by (auto simp: tcp_read_def recv_fd_def cvt_ssize_def split: prod.splits if_splits)
  have writes: "fds w' = fds w" if "tcp_write K ?s buf w = (r, w')" for buf w r w'
    using that calls(2) [of "stream_fd ?s" buf 0 w]
    by (auto simp: tcp_write_def send_fd_def cvt_ssize_def split: prod.splits if_splits)
  have shuts: "fds (snd (tcp_shutdown K ?s how w)) = fds w" for how w
    using calls(3) by (auto simp: tcp_shutdown_def Let_def cvt_i32_def split: prod.splits)
      (metis snd_conv)+
  from assms(2) obtain x w1 where
    serves: "serve_connection K ?s handler (cn_limits c) w = Some (Inr x, w1)" and w': "w' = drop_connection K c w1"
    by (auto simp: run_connection_def split: option.splits sum.splits)
  have "fds w1 = fds w"
    by (rule serve_connection_keeps [where f = fds, OF _ _ _ _ serves])
      (use reads writes shuts calls(4) in blast)+
  then show ?thesis
    using fd_call(3) [OF system_fd_parts(1) [OF c]]
    by (simp add: w' drop_connection_def drop_tcp_stream_def)
qed

lemma spawn_in_system:
  assumes c: "system_fd_calls K T handler env fds"
    and sp: "builder_spawn T (drop_connection K) b cn p = (r, p2)"
  shows "fresh p2 = Suc (fresh p)"
    and "r = Inr h \<Longrightarrow> handle_shared h = fresh p \<and> \<not> joined h \<and>
      cells p2 = (cells p)(fresh p \<mapsto> \<lparr>strong = 2, slot = None\<rparr>) \<and> fds (os p2) = fds (os p)"
    and "r = Inl e \<Longrightarrow> cells p2 = (cells p)(fresh p := None) \<and>
      fds (os p2) = fds (os p) - {#stream_fd (cn_stream cn)#}"
proof -
  let ?p2 = "arc_clone (fresh p) (snd (arc_new p))"
  let ?pk = "\<lparr>closure = cn, packet_shared = fresh p\<rparr>"
  obtain rc g w where ct: "create_thread T (stack_size b) ?pk (os ?p2) = ((rc, g), w)"
    by (metis prod.exhaust)
  have "fds w = fds (os ?p2)"
    by (rule create_thread_observed [where f = "\<lambda>_ x. x", OF system_fd_parts(2) [OF c] _ _ ct])
      (use system_fd_parts(3) [OF c] in blast)+
  then have w: "fds w = fds (os p)" by (simp add: arc_new_def arc_clone_def)
  show "fresh p2 = Suc (fresh p)"
    using sp ct by (auto simp: builder_spawn_def Let_def arc_new_def arc_clone_def drop_packet_def
        arc_drop_def split: if_splits)
  show "handle_shared h = fresh p \<and> \<not> joined h \<and>
      cells p2 = (cells p)(fresh p \<mapsto> \<lparr>strong = 2, slot = None\<rparr>) \<and> fds (os p2) = fds (os p)"
    if "r = Inr h"
    using sp ct that w by (auto simp: builder_spawn_def Let_def arc_new_def arc_clone_def split: if_splits)
  show "cells p2 = (cells p)(fresh p := None) \<and>
      fds (os p2) = fds (os p) - {#stream_fd (cn_stream cn)#}"
    if "r = Inl e"
    using sp ct that w fd_call(3) [OF system_fd_parts(1) [OF c]]
    by (auto simp: builder_spawn_def Let_def arc_new_def arc_clone_def drop_packet_def arc_drop_def
        drop_connection_def drop_tcp_stream_def split: if_splits)
qed

lemma drop_handle_in_system:
  assumes c: "system_fd_calls K T handler env fds"
    and "cells p (handle_shared h) = Some \<lparr>strong = 2, slot = x\<rparr>"
  shows "cells (drop_join_handle T h p) = (cells p)(handle_shared h \<mapsto> \<lparr>strong = 1, slot = x\<rparr>)"
    and "fresh (drop_join_handle T h p) = fresh p"
    and "fds (os (drop_join_handle T h p)) = fds (os p)"
  using assms(2) attr_call(4) [OF system_fd_parts(2) [OF c]]
  by (simp_all add: drop_join_handle_def arc_drop_def)

lemma thread_slot_simps [simp]:
  "thread_slot (Ready pk) = Some (packet_shared pk)"
  "thread_slot (Returned a u) = Some a"
  "thread_slot (Stored a u) = Some a"
  by (simp_all add: thread_slot_def)

lemma system_thread:
  assumes "system_inv fds l base p s" and "sy_threads s i = Some t"
  shows "fresh p \<le> i" and "i < fresh (sy_proc s)" and "thread_slot t = Some i"
    and "cells (sy_proc s) i = Some (thread_cell t)"
  using assms by (auto simp: system_inv_def)

lemma thread_stream_open:
  assumes "system_inv fds l base p s" and "sy_threads s i = Some (Ready pk)"
  shows "\<exists>rest. system_fds l s = add_mset (stream_fd (cn_stream (closure pk))) rest"
proof -
  have "(\<Sum>j<fresh (sy_proc s). phase_fds (sy_threads s j)) = add_mset (stream_fd (cn_stream (closure pk)))
      (\<Sum>j<fresh (sy_proc s). phase_fds (((sy_threads s)(i := None)) j))"
    using sum_phase_update [OF system_thread(2) [OF assms], of "sy_threads s" None] assms(2) by simp
  then show ?thesis by (simp add: system_fds_def)
qed

text \<open>One thread moves on, or is done, and the rest of the process stays as it is.\<close>

lemma thread_moves:
  assumes inv: "system_inv fds l base p s" and t: "sy_threads s i = Some t"
    and free: "\<forall>i\<ge>fresh p. cells p i = None"
    and "fresh q = fresh (sy_proc s)"
    and "cells q = (cells (sy_proc s))(i := map_option thread_cell x)"
    and "\<forall>t'. x = Some t' \<longrightarrow> thread_slot t' = Some i"
    and moved: "fds (os q) + phase_fds (Some t) = fds (os (sy_proc s)) + phase_fds x"
    and refs: "n + size (phase_fds (Some t)) = sy_handler s + size (phase_fds x)"
  shows "system_inv fds l base p (s\<lparr>sy_proc := q, sy_threads := (sy_threads s)(i := x), sy_handler := n\<rparr>)"
proof -
  note i = system_thread [OF inv t]
  let ?sum = "\<lambda>m. \<Sum>j<fresh (sy_proc s). phase_fds (m j)"
  have sums: "?sum ((sy_threads s)(i := x)) + phase_fds (Some t) = ?sum (sy_threads s) + phase_fds x"
    using sum_phase_update [OF i(2), of "sy_threads s" x] t by simp
  have "fds (os q) + phase_fds (Some t) =
      base + serving_fds l (sy_serving s) + (?sum (sy_threads s) + phase_fds x)"
    using moved inv by (simp add: system_inv_def system_fds_def)
  with sums have "fds (os q) + phase_fds (Some t) =
      base + serving_fds l (sy_serving s) + ?sum ((sy_threads s)(i := x)) + phase_fds (Some t)"
    by (simp only: add.assoc)
  then have "fds (os q) = base + serving_fds l (sy_serving s) + ?sum ((sy_threads s)(i := x))"
    by (rule add_right_imp_eq)
  moreover have "n = size (serving_fds l (sy_serving s) + ?sum ((sy_threads s)(i := x)))"
    using refs arg_cong [OF sums, of size] inv by (simp add: system_inv_def system_fds_def)
  ultimately show ?thesis using assms(1,3-6) i(1,2)
    by (cases x) (auto simp: system_inv_def system_fds_def)
qed

lemma thread_moves_quietly:
  assumes "system_inv fds l base p s" and "sy_threads s i = Some t"
    and "\<forall>i\<ge>fresh p. cells p i = None" and "fresh q = fresh (sy_proc s)"
    and "cells q = (cells (sy_proc s))(i := map_option thread_cell x)"
    and "\<forall>t'. x = Some t' \<longrightarrow> thread_slot t' = Some i"
    and "fds (os q) = fds (os (sy_proc s))" and "phase_fds x = phase_fds (Some t)"
  shows "system_inv fds l base p (s\<lparr>sy_proc := q, sy_threads := (sy_threads s)(i := x)\<rparr>)"
  using thread_moves [OF assms(1-6), of "sy_handler s"] assms(7,8) by simp

lemma server_step_inv:
  assumes "server_step K T handler env sv l s s'" and c: "system_fd_calls K T handler env fds"
    and free: "\<forall>i\<ge>fresh p. cells p i = None" and "system_inv fds l base p s"
  shows "system_inv fds l base p s'"
  using assms(1,4)
proof (induction rule: server_step.induct)
  case (accepted s stream peer w1)
  with accept_ledger [OF system_fd_parts(1) [OF c] accepted.hyps(2)] show ?case
    by (simp add: system_inv_def system_fds_def serving_fds_def)
next
  case (again s e w1)
  with accept_ledger [OF system_fd_parts(1) [OF c] again.hyps(2)] show ?case
    by (simp add: system_inv_def system_fds_def serving_fds_def)
next
  case (stopped s e w1)
  with accept_ledger [OF system_fd_parts(1) [OF c] stopped.hyps(2)]
    fd_call(3) [OF system_fd_parts(1) [OF c]] show ?case
    by (simp add: system_inv_def system_fds_def serving_fds_def drop_tcp_listener_def)
next
  case (outside s w1)
  with system_fd_parts(4) [OF c outside.hyps] show ?case
    by (simp add: system_inv_def system_fds_def)
next
  case (refused s stream cn e p2)
  note sp = spawn_in_system [OF c refused.hyps(3)]
  have none: "sy_threads s (fresh (sy_proc s)) = None"
    using refused.prems by (cases "sy_threads s (fresh (sy_proc s))") (auto simp: system_inv_def)
  with refused sp(1) sp(3) [OF refl] free show ?case
    by (auto simp: system_inv_def system_fds_def serving_fds_def intro: less_SucI split: option.splits)
next
  case (spawned s stream cn h p2)
  note sp = spawn_in_system [OF c spawned.hyps(3)]
  from sp(2) [OF refl] have "cells p2 (handle_shared h) = Some \<lparr>strong = 2, slot = None\<rparr>" by simp
  note dr = drop_handle_in_system [OF c this]
  have none: "sy_threads s (fresh (sy_proc s)) = None"
    using spawned.prems by (cases "sy_threads s (fresh (sy_proc s))") (auto simp: system_inv_def)
  with spawned sp(1) sp(2) [OF refl] dr free show ?case
    by (auto simp: system_inv_def system_fds_def serving_fds_def thread_cell_def stored_value_def intro: less_SucI
        split: option.splits)
next
  case (call s i pk u w1)
  note t = system_thread [OF call.prems call.hyps(1)]
  obtain rest where own: "system_fds l s = add_mset (stream_fd (cn_stream (closure pk))) rest"
    using thread_stream_open [OF call.prems call.hyps(1)] by blast
  with connection_run_fds [OF c call.hyps(2)] call.prems
  have "fds w1 + {#stream_fd (cn_stream (closure pk))#} = fds (os (sy_proc s))"
    by (simp add: system_inv_def)
  moreover have "0 < sy_handler s" using own call.prems by (simp add: system_inv_def)
  ultimately show ?case using t
    by (intro thread_moves [OF call.prems call.hyps(1) free])
      (auto simp: thread_cell_def stored_value_def)
next
  case (store s i a u)
  with system_thread [OF store.prems store.hyps] show ?case
    by (intro thread_moves_quietly [OF store.prems store.hyps free])
      (auto simp: slot_store_def thread_cell_def stored_value_def)
next
  case (release s i a u)
  with system_thread [OF release.prems release.hyps] show ?case
    by (intro thread_moves_quietly [OF release.prems release.hyps free])
      (auto simp: arc_drop_def thread_cell_def stored_value_def)
qed

lemma system_reach_inv:
  assumes "(server_step K T handler env sv l)\<^sup>*\<^sup>* s s'" and "system_fd_calls K T handler env fds"
    and "\<forall>i\<ge>fresh p. cells p i = None" and "system_inv fds l base p s"
  shows "system_inv fds l base p s'"
  by (rule steps_keep [where I = "system_inv fds l base p", OF assms(1) _ assms(4)]) (rule server_step_inv [OF _ assms(2,3)])

lemma system_start_inv:
  assumes "system_fd_calls K T handler env fds" and "tcp_bind K addr (os p) = (Inr l, w1)"
  shows "system_inv fds l (fds (os p)) p (system_start (p\<lparr>os := w1\<rparr>))"
  using bind_ledger [OF system_fd_parts(1) [OF assms(1)] assms(2)]
  by (simp add: system_inv_def system_start_def system_fds_def serving_fds_def)

text \<open>
  C11: under every interleaving of the serving thread, the threads of its connections and the
  world outside, the open descriptors are those from before serving, the listener, the
  connection between \<^verbatim>\<open>accept\<close> and \<^verbatim>\<open>spawn\<close>, and one per thread that has not closed its stream;
  the allocated result slots are those from before and one, with one reference, per live
  thread; and the shared handler has one reference per descriptor of the server, so it lives
  as long as a thread can call it. When serving has stopped and the threads have ended,
  nothing is left over.
\<close>

theorem server_system_accounts_for_its_resources:
  assumes "system_fd_calls K T handler env fds" and "tcp_bind K addr (os p) = (Inr l, w1)"
    and "\<forall>i\<ge>fresh p. cells p i = None"
    and "(server_step K T handler env sv l)\<^sup>*\<^sup>* (system_start (p\<lparr>os := w1\<rparr>)) s"
  shows "fds (os (sy_proc s)) = fds (os p) + system_fds l s \<and>
    (\<forall>i. cells (sy_proc s) i =
      (case sy_threads s i of None \<Rightarrow> cells p i | Some t \<Rightarrow> Some (thread_cell t))) \<and>
    sy_handler s = size (system_fds l s) \<and>
    (\<forall>i pk. sy_threads s i = Some (Ready pk) \<longrightarrow> 0 < sy_handler s) \<and>
    (\<forall>e. sy_serving s = Stopped e \<and> sy_threads s = (\<lambda>_. None) \<longrightarrow>
      fds (os (sy_proc s)) = fds (os p) \<and> cells (sy_proc s) = cells p \<and> sy_handler s = 0)"
proof -
  note inv = system_reach_inv [OF assms(4,1,3) system_start_inv [OF assms(1,2)]]
  have "0 < sy_handler s" if "sy_threads s i = Some (Ready pk)" for i pk
    using thread_stream_open [OF inv that] inv by (auto simp: system_inv_def)
  with inv show ?thesis
    by (auto simp: system_inv_def system_fds_def serving_fds_def)
qed

text \<open>
  C12: \<^verbatim>\<open>Server::serve\<close> implements the system: when it returns an error after binding, the
  system has a run from the bound listener to the state it leaves, stopped with that error.
\<close>

theorem serve_is_a_run_of_the_system:
  assumes "tcp_bind K addr (os p) = (Inr l, w1)" and "serve K T sv addr p = Some (e, p')"
  shows "\<exists>m n. (server_step K T handler env sv l)\<^sup>*\<^sup>* (system_start (p\<lparr>os := w1\<rparr>))
    \<lparr>sy_proc = p', sy_serving = Stopped e, sy_threads = m, sy_handler = n\<rparr>"
proof -
  from assms obtain p2 where "accept_loop K T sv l (p\<lparr>os := w1\<rparr>) = Some (e, p2)"
    and "p' = p2\<lparr>os := drop_tcp_listener K l (os p2)\<rparr>"
    by (auto simp: serve_def split: option.splits)
  with accept_loop_steps [OF this(1)] show ?thesis by (simp add: system_start_def)
qed

section \<open>An example run\<close>

lemma quota_fd_calls:
  "system_fd_calls quota_net calm_threads echo_handler (\<lambda>_ _. False) (\<lambda>w. mset (fst w))"
  unfolding system_fd_calls_def fd_calls_def attr_calls_def quota_net_def inert_net_def
    calm_threads_def echo_handler_def
  by (auto split: if_splits)

lemma calm_spawn:
  "\<exists>h p2. builder_spawn calm_threads d b c p = (Inr h, p2) \<and> handle_shared h = fresh p \<and>
     os p2 = os p \<and> fresh p2 = Suc (fresh p)"
  by (cases "stack_size b")
     (simp_all add: builder_spawn_def Let_def create_thread_def calm_threads_def arc_new_def
       arc_clone_def)

text \<open>The first connection, from \<^verbatim>\<open>accept\<close> to its thread.\<close>

lemma first_connection:
  assumes acc: "tcp_accept K l w = (Inr (stream, peer), w1)"
  shows "\<exists>s c. (server_step K calm_threads handler env sv l)\<^sup>*\<^sup>* (system_start (empty_proc w)) s \<and>
     sy_serving s = Accepting \<and> sy_threads s = [0 \<mapsto> Ready \<lparr>closure = c, packet_shared = 0\<rparr>] \<and>
     c = \<lparr>cn_stream = stream, cn_limits = sv_limits sv\<rparr> \<and> fresh (sy_proc s) = 1 \<and> os (sy_proc s) = w1"
proof -
  let ?R = "server_step K calm_threads handler env sv l"
  let ?T = "calm_threads :: ('a, connection packet) thread_sys"
  let ?s0 = "system_start (empty_proc w)"
  let ?c = "\<lparr>cn_stream = stream, cn_limits = sv_limits sv\<rparr>"
  let ?s1 = "?s0\<lparr>sy_proc := (sy_proc ?s0)\<lparr>os := w1\<rparr>, sy_serving := Holding stream,
    sy_handler := Suc (sy_handler ?s0)\<rparr>"
  have s01: "?R ?s0 ?s1"
    using acc by (intro server_step.accepted [of ?s0]) (simp_all add: system_start_def empty_proc_def)
  obtain h p2 where sp: "builder_spawn ?T (drop_connection K)
      (builder_stack_size builder_new (sv_stack_size sv)) ?c (sy_proc ?s1) = (Inr h, p2)"
    and h: "handle_shared h = 0" "os p2 = w1" "fresh p2 = 1"
    using calm_spawn [of "drop_connection K" "builder_stack_size builder_new (sv_stack_size sv)"
        ?c "sy_proc ?s1"]
    by (auto simp: system_start_def empty_proc_def)
  let ?s2 = "?s1\<lparr>sy_proc := drop_join_handle ?T h p2, sy_serving := Accepting,
    sy_threads := (sy_threads ?s1)(handle_shared h \<mapsto> Ready \<lparr>closure = ?c, packet_shared = handle_shared h\<rparr>)\<rparr>"
  have "?R ?s1 ?s2" by (rule server_step.spawned [OF _ _ sp]) simp_all
  with s01 have "?R\<^sup>*\<^sup>* ?s0 ?s2"
    by (rule converse_rtranclp_into_rtranclp [OF _ r_into_rtranclp])
  moreover have "fresh (sy_proc ?s2) = 1" and "os (sy_proc ?s2) = w1"
    using h by (simp_all add: drop_join_handle_def arc_drop_def calm_threads_def split: option.splits)
  ultimately show ?thesis using h(1)
    by (intro exI [of _ ?s2] exI [of _ ?c]) (simp add: system_start_def)
qed

abbreviation quota_step :: "(i32 list \<times> nat) system \<Rightarrow> (i32 list \<times> nat) system \<Rightarrow> bool" where
  "quota_step \<equiv> server_step quota_net calm_threads echo_handler (\<lambda>_ _. False) server_new \<lparr>listener_fd = 3\<rparr>"

lemma quota_accepts_one:
  "\<exists>s c. quota_step\<^sup>*\<^sup>* (system_start (empty_proc ([3, 9], 1))) s \<and> sy_serving s = Accepting \<and>
     sy_threads s = [0 \<mapsto> Ready \<lparr>closure = c, packet_shared = 0\<rparr>] \<and> stream_fd (cn_stream c) = 5 \<and>
     fresh (sy_proc s) = 1 \<and> os (sy_proc s) = ([5, 3, 9], 0)"
proof -
  obtain peer where "tcp_accept quota_net \<lparr>listener_fd = 3\<rparr> ([3, 9], 1) =
      (Inr (\<lparr>stream_fd = 5\<rparr>, peer), ([5, 3, 9], 0))"
    using quota_accept(2) [of "\<lparr>listener_fd = 3\<rparr>" "[3, 9]" 0] by auto
  from first_connection [OF this, of echo_handler "\<lambda>_ _. False" server_new] show ?thesis by fastforce
qed

lemma quota_start:
  "tcp_bind quota_net (V4 \<lparr>v4_ip = (0, 0, 0, 0), v4_port = 80\<rparr>) (os (empty_proc ([9], 1))) =
    (Inr \<lparr>listener_fd = 3\<rparr>, ([3, 9], 1))"
  "\<forall>i\<ge>fresh (empty_proc w). cells (empty_proc w) i = None"
  "(empty_proc ([9], 1))\<lparr>os := ([3, 9], 1)\<rparr> = empty_proc ([3, 9], 1)"
  by (simp_all add: quota_bind empty_proc_def)

theorem server_system_accounts_for_its_resources_witness:
  "\<exists>s pk. quota_step\<^sup>*\<^sup>* (system_start (empty_proc ([3, 9], 1))) s \<and>
     sy_threads s = [0 \<mapsto> Ready pk] \<and> mset (fst (os (sy_proc s))) = {#9, 3, 5#} \<and>
     sy_handler s = 2 \<and> cells (sy_proc s) 0 = Some \<lparr>strong = 1, slot = None\<rparr>"
proof -
  obtain s c where run: "quota_step\<^sup>*\<^sup>* (system_start (empty_proc ([3, 9], 1))) s"
    and s: "sy_serving s = Accepting" "sy_threads s = [0 \<mapsto> Ready \<lparr>closure = c, packet_shared = 0\<rparr>]"
      "stream_fd (cn_stream c) = 5" "fresh (sy_proc s) = 1" "os (sy_proc s) = ([5, 3, 9], 0)"
    using quota_accepts_one by blast
  have fds: "system_fds \<lparr>listener_fd = 3\<rparr> s = {#3, 5#}"
    by (simp add: system_fds_def serving_fds_def s)
  from server_system_accounts_for_its_resources [OF quota_fd_calls quota_start(1,2),
      unfolded quota_start(3), OF run, unfolded fds] run s
  show ?thesis by (auto simp: thread_cell_def stored_value_def empty_proc_def)
qed

theorem serve_is_a_run_of_the_system_witness:
  "\<exists>p' m n. (server_step quota_net quota_threads echo_handler (\<lambda>_ _. False) server_new \<lparr>listener_fd = 3\<rparr>)\<^sup>*\<^sup>*
     (system_start (empty_proc ([3, 9], 1)))
     \<lparr>sy_proc = p', sy_serving = Stopped (Os (Errno 24)), sy_threads = m, sy_handler = n\<rparr>"
proof -
  let ?p = "empty_proc ([9], 1) :: (unit, i32 list \<times> nat) proc"
  let ?addr = "V4 \<lparr>v4_ip = (0, 0, 0, 0), v4_port = 80\<rparr>"
  obtain p1 where "accept_loop quota_net quota_threads server_new \<lparr>listener_fd = 3\<rparr>
      (?p\<lparr>os := ([3, 9], 1)\<rparr>) = Some (Os (Errno 24), p1)"
    using quota_loop [of "?p\<lparr>os := ([3, 9], 1)\<rparr>" "[3, 9]"] by auto
  then obtain p' where run: "serve quota_net quota_threads server_new ?addr ?p = Some (Os (Errno 24), p')"
    by (simp add: serve_def quota_bind empty_proc_def)
  have "tcp_bind quota_net ?addr (os ?p) = (Inr \<lparr>listener_fd = 3\<rparr>, ([3, 9], 1))"
    by (simp add: quota_bind empty_proc_def)
  from serve_is_a_run_of_the_system [OF this run, where handler = echo_handler and env = "\<lambda>_ _. False"]
  show ?thesis by (auto simp: empty_proc_def)
qed

end
