(* ===== verification/Server_Shutdown.thy ===== *)
theory Server_Shutdown
  imports Server_System
begin

text \<open>
  How the server ends. \<^verbatim>\<open>recv\<close> from a peer that stays silent and \<^verbatim>\<open>send\<close> to one that does not
  read block for ever, since the code sets no timeout. The calls of the model always return, so
  a thread that is blocked so is one whose step is never taken. A thread that is not blocked
  returns, since reading is bounded and writing ends unless interruptions recur for ever. Once
  the listener has failed, the threads that are not blocked run to their end and give back what
  the server took for them; those that are blocked keep it.
\<close>

section \<open>A connection's thread returns\<close>

text \<open>Interruptions of \<^verbatim>\<open>send\<close> cannot recur for ever: a measure of the state falls with each.\<close>

definition patient_sends :: "('w, 'x) net_sys_scheme \<Rightarrow> tcp_stream \<Rightarrow> ('w \<Rightarrow> nat) \<Rightarrow> bool" where
  "patient_sends K s m \<longleftrightarrow>
     (\<forall>buf w w'. net_send K (stream_fd s) buf 0 w = (-1, w') \<longrightarrow> sys_errno K w' = EINTR K \<longrightarrow> m w' < m w)"

lemma response_ends:
  assumes c: "send_contract K s log" and "patient_sends K s m"
  shows "\<exists>w'. respond K s resp w = Some (Inr (), w')"
proof -
  have "\<And>buf w e w'. tcp_write K s buf w = (Inl e, w') \<Longrightarrow> is_interrupt K e \<Longrightarrow> m w' < m w"
    using assms(2)
    by (auto simp: patient_sends_def tcp_write_send last_os_def errno_last_def interrupted_def)
  then have "\<exists>r w3. write_response K s resp w = Some (r, w3)"
    using tcp_sink.pump_total [OF c, of "is_interrupt K" m "last_os K" "encode resp" w]
    unfolding write_response_def tcp_write_all_pump by blast
  then obtain r w3 where wr: "write_response K s resp w = Some (r, w3)" by blast
  have "r \<noteq> Inl Panic"
    using wr tcp_sink.pump_log [OF c] by (fastforce simp: write_response_def tcp_write_all_pump)
  with wr show ?thesis
    by (cases r) (auto simp: respond_def split: failure.splits)
qed

lemma connection_returns:
  assumes "recv_contract K (cn_stream c) pend" and "send_contract K (cn_stream c) log"
    and "patient_sends K (cn_stream c) m"
  shows "\<exists>w'. run_connection K handler c w = Some ((), w')"
proof -
  note ends = response_ends [OF assms(2,3)]
  obtain rr w1 where rd: "read_request K (cn_stream c) (cn_limits c) w = (rr, w1)"
    by (metis prod.exhaust)
  have np: "rr \<noteq> Inl Panic"
    using read_request_no_panic [OF assms(1), of "cn_limits c" w] rd by simp
  have "\<exists>w'. serve_connection K (cn_stream c) handler (cn_limits c) w = Some (Inr (), w')"
  proof (cases rr)
    case (Inl e)
    with np rd ends [of bad_request w1] show ?thesis
      by (cases e) (auto simp: serve_connection_def)
  next
    case (Inr q)
    show ?thesis
    proof (cases q)
      case None
      with Inr rd show ?thesis by (simp add: serve_connection_def)
    next
      case (Some req)
      obtain resp w2 where "handler req w1 = (resp, w2)" by (metis prod.exhaust)
      with Some Inr rd ends [of resp w2] show ?thesis by (simp add: serve_connection_def)
    qed
  qed
  then show ?thesis by (auto simp: run_connection_def)
qed

section \<open>The work that is left\<close>

definition phase_work :: "(connection, unit) thread_phase option \<Rightarrow> nat" where
  "phase_work t =
     (case t of Some (Ready _) \<Rightarrow> 3 | Some (Returned _ _) \<Rightarrow> 2 | Some (Stored _ _) \<Rightarrow> 1 | _ \<Rightarrow> 0)"

lemma phase_work_simps [simp]:
  "phase_work None = 0"
  "phase_work (Some (Ready pk)) = 3"
  "phase_work (Some (Returned a u)) = 2"
  "phase_work (Some (Stored a u)) = 1"
  by (simp_all add: phase_work_def)

definition system_work :: "'w system \<Rightarrow> nat" where
  "system_work s = (\<Sum>i<fresh (sy_proc s). phase_work (sy_threads s i))"

lemma work_falls:
  assumes "i < fresh (sy_proc s)" and "fresh (sy_proc s') = fresh (sy_proc s)"
    and "sy_threads s' = (sy_threads s)(i := x)" and "phase_work x < phase_work (sy_threads s i)"
  shows "system_work s' < system_work s"
  using assms(1,4) unfolding system_work_def assms(2,3)
  by (intro sum_strict_mono_ex1) auto

lemma fresh_kept [simp]: "fresh (slot_store a u p) = fresh p" "fresh (arc_drop a p) = fresh p"
  by (simp_all add: slot_store_def arc_drop_def split: option.split)

text \<open>The steps of the server's own threads, with nothing happening outside.\<close>

abbreviation own_step ::
  "('w, 'x) net_sys_scheme \<Rightarrow> ('w, connection packet) thread_sys \<Rightarrow> (request \<Rightarrow> 'w \<Rightarrow> response \<times> 'w) \<Rightarrow>
   server \<Rightarrow> tcp_listener \<Rightarrow> 'w system \<Rightarrow> 'w system \<Rightarrow> bool" where
  "own_step K T handler \<equiv> server_step K T handler (\<lambda>_ _. False)"

lemma own_step_system: "own_step K T handler sv l s s' \<Longrightarrow> server_step K T handler env sv l s s'"
  by (induction rule: server_step.induct) (blast intro: server_step.intros)+

lemma stopped_step:
  assumes "own_step K T handler sv l s s'" and "sy_serving s = Stopped e"
    and "system_inv fds l base p s"
  shows "sy_serving s' = Stopped e \<and> system_work s' < system_work s"
  using assms(1)
proof (cases rule: server_step.cases)
  case (call pk i u w1)
  with assms(2) show ?thesis by (auto intro: work_falls [OF system_thread(2) [OF assms(3)]])
next
  case (store i a u)
  with assms(2) show ?thesis by (auto intro: work_falls [OF system_thread(2) [OF assms(3)]])
next
  case (release i a u)
  with assms(2) show ?thesis by (auto intro: work_falls [OF system_thread(2) [OF assms(3)]])
qed (use assms(2) in simp_all)

text \<open>A stopped server starts no thread, and a thread that is ready has not moved.\<close>

lemma stopped_threads:
  assumes "own_step K T handler sv l s s'" and "sy_serving s = Stopped e"
  shows "sy_threads s' i = Some (Ready pk) \<Longrightarrow> sy_threads s i = Some (Ready pk)"
  using assms by (cases rule: server_step.cases) (auto split: if_splits)

text \<open>The steps of the threads that are not blocked; those in \<open>B\<close> stay where they are.\<close>

definition unblocked_step ::
  "('w, 'x) net_sys_scheme \<Rightarrow> ('w, connection packet) thread_sys \<Rightarrow> (request \<Rightarrow> 'w \<Rightarrow> response \<times> 'w) \<Rightarrow>
   server \<Rightarrow> tcp_listener \<Rightarrow> nat set \<Rightarrow> 'w system \<Rightarrow> 'w system \<Rightarrow> bool" where
  "unblocked_step K T handler sv l B s s' \<longleftrightarrow>
     own_step K T handler sv l s s' \<and> (\<forall>i \<in> B. sy_threads s' i = sy_threads s i)"

text \<open>As long as a thread that is not blocked is left, some such thread can take a step.\<close>

lemma unblocked_progress:
  assumes inv: "system_inv fds l base p s" and t: "sy_threads s i = Some t" and "i \<notin> B"
    and returns: "\<And>pk w. t = Ready pk \<Longrightarrow> \<exists>w'. run_connection K handler (closure pk) w = Some ((), w')"
  shows "\<exists>s'. unblocked_step K T handler sv l B s s'"
proof -
  have "\<exists>s' x. own_step K T handler sv l s s' \<and> sy_threads s' = (sy_threads s)(i := x)"
  proof (cases t)
    case (Ready pk)
    obtain w' where "run_connection K handler (closure pk) (os (sy_proc s)) = Some ((), w')"
      using returns [OF Ready] by blast
    with server_step.call [OF t [unfolded Ready] this] show ?thesis by fastforce
  next
    case (Returned a u)
    with server_step.store [OF t [unfolded Returned]] show ?thesis by fastforce
  next
    case (Stored a u)
    with server_step.release [OF t [unfolded Stored]] show ?thesis by fastforce
  next
    case (Finished u)
    with system_thread(3) [OF inv t] show ?thesis by (simp add: thread_slot_def)
  qed
  then show ?thesis using assms(3) unfolding unblocked_step_def by fastforce
qed

text \<open>What holds along a run of the threads that are not blocked.\<close>

definition winding_down ::
  "('w \<Rightarrow> i32 multiset) \<Rightarrow> tcp_listener \<Rightarrow> i32 multiset \<Rightarrow> (unit, 'w) proc \<Rightarrow> nat set \<Rightarrow>
   'w system \<Rightarrow> 'w system \<Rightarrow> bool" where
  "winding_down fds l base p B s s' \<longleftrightarrow>
     (\<exists>e. sy_serving s' = Stopped e) \<and> system_inv fds l base p s' \<and>
     (\<forall>i \<in> B. sy_threads s' i = sy_threads s i) \<and>
     (\<forall>i pk. sy_threads s' i = Some (Ready pk) \<longrightarrow> sy_threads s i = Some (Ready pk))"

lemma winding_down_parts:
  assumes "winding_down fds l base p B s s'"
  shows "\<exists>e. sy_serving s' = Stopped e" and "system_inv fds l base p s'"
    and "\<forall>i \<in> B. sy_threads s' i = sy_threads s i"
    and "sy_threads s' i = Some (Ready pk) \<Longrightarrow> sy_threads s i = Some (Ready pk)"
  using assms unfolding winding_down_def by blast+

lemma winding_down_run:
  assumes c: "system_fd_calls K T handler env fds" and free: "\<forall>i\<ge>fresh p. cells p i = None"
    and "(unblocked_step K T handler sv l B ^^ n) s s'" and start: "winding_down fds l base p B s s"
  shows "winding_down fds l base p B s s' \<and> n + system_work s' \<le> system_work s"
  using assms(3)
proof (induction n arbitrary: s')
  case 0
  with start show ?case by simp
next
  case (Suc n)
  then obtain s1 where run: "(unblocked_step K T handler sv l B ^^ n) s s1"
    and last: "unblocked_step K T handler sv l B s1 s'"
    by auto
  from last have s1: "own_step K T handler sv l s1 s'" "\<forall>i \<in> B. sy_threads s' i = sy_threads s1 i"
    by (simp_all add: unblocked_step_def)
  have w: "winding_down fds l base p B s s1" and n: "n + system_work s1 \<le> system_work s"
    using Suc.IH [OF run] by simp_all
  obtain e where e: "sy_serving s1 = Stopped e" using winding_down_parts(1) [OF w] by blast
  note inv = winding_down_parts(2) [OF w]
  note step = stopped_step [OF s1(1) e inv]
  have "system_inv fds l base p s'"
    using server_step_inv [OF own_step_system [OF s1(1)] c free inv] .
  moreover have "\<forall>i \<in> B. sy_threads s' i = sy_threads s i"
    using s1(2) winding_down_parts(3) [OF w] by (metis (no_types))
  moreover have "sy_threads s i = Some (Ready pk)" if "sy_threads s' i = Some (Ready pk)" for i pk
    using winding_down_parts(4) [OF w stopped_threads [OF s1(1) e that]] .
  ultimately have "winding_down fds l base p B s s'"
    unfolding winding_down_def using step by blast
  moreover have "Suc n + system_work s' \<le> system_work s" using n step by linarith
  ultimately show ?case ..
qed

text \<open>
  The server has come to rest but for the threads in \<open>B\<close>: they have not moved, no other thread
  is left, and of what the server took there remain their descriptors, their result slots and
  one reference to the handler each.
\<close>

definition at_rest_except ::
  "('w \<Rightarrow> i32 multiset) \<Rightarrow> (unit, 'w) proc \<Rightarrow> nat set \<Rightarrow> 'w system \<Rightarrow> 'w system \<Rightarrow> bool" where
  "at_rest_except fds p B s s' \<longleftrightarrow>
     (\<forall>i. sy_threads s' i = (if i \<in> B then sy_threads s i else None)) \<and>
     fds (os (sy_proc s')) = fds (os p) + (\<Sum>i\<in>B. phase_fds (sy_threads s i)) \<and>
     (\<forall>i. cells (sy_proc s') i =
        (if i \<in> B then map_option thread_cell (sy_threads s i) else cells p i)) \<and>
     sy_handler s' = card B"

lemma size_sum: "size (sum f A) = (\<Sum>i\<in>A. size (f i))" for f :: "nat \<Rightarrow> 'b multiset"
  by (induction A rule: infinite_finite_induct) simp_all

lemma winding_down_rest:
  assumes w: "winding_down fds l (fds (os p)) p B s s'" and B: "\<forall>i\<in>B. \<exists>pk. sy_threads s i = Some (Ready pk)"
    and none: "\<forall>i. i \<notin> B \<longrightarrow> sy_threads s' i = None"
  shows "at_rest_except fds p B s s'"
proof -
  have inv: "system_inv fds l (fds (os p)) p s'" and same: "\<forall>i\<in>B. sy_threads s' i = sy_threads s i"
    and stop: "\<exists>e. sy_serving s' = Stopped e"
    using winding_down_parts [OF w] by blast+
  have "B \<subseteq> {..<fresh (sy_proc s')}"
    using B same system_thread(2) [OF inv] by (metis lessThan_iff subsetI)
  then have "(\<Sum>i<fresh (sy_proc s'). phase_fds (sy_threads s' i)) = (\<Sum>i\<in>B. phase_fds (sy_threads s' i))"
    using none by (intro sum.mono_neutral_right) auto
  also have "\<dots> = (\<Sum>i\<in>B. phase_fds (sy_threads s i))" using same by simp
  finally have left: "system_fds l s' = (\<Sum>i\<in>B. phase_fds (sy_threads s i))"
    using stop by (auto simp: system_fds_def serving_fds_def)
  have one: "size (phase_fds (sy_threads s i)) = 1" if "i \<in> B" for i
  proof -
    from B that obtain pk where "sy_threads s i = Some (Ready pk)" by blast
    then show ?thesis by simp
  qed
  have "(\<Sum>i\<in>B. size (phase_fds (sy_threads s i))) = (\<Sum>i\<in>B. 1)" by (rule sum.cong) (simp_all add: one)
  then have "sy_handler s' = card B" using inv by (simp add: system_inv_def left size_sum)
  moreover have "cells (sy_proc s') i =
      (if i \<in> B then map_option thread_cell (sy_threads s i) else cells p i)" for i
    using inv none same B by (cases "i \<in> B") (auto simp: system_inv_def)
  moreover have "fds (os (sy_proc s')) = fds (os p) + (\<Sum>i\<in>B. phase_fds (sy_threads s i))"
    using inv by (simp add: system_inv_def left)
  moreover have "sy_threads s' i = (if i \<in> B then sy_threads s i else None)" for i
    using none same by (cases "i \<in> B") simp_all
  ultimately show ?thesis unfolding at_rest_except_def by blast
qed

lemma bounded_runs_end:
  assumes "\<And>n s'. (R ^^ n) s s' \<Longrightarrow> n \<le> b"
  shows "\<exists>n s'. (R ^^ n) s s' \<and> \<not> (\<exists>s''. R s' s'')"
proof (rule ccontr)
  assume none: "\<not> (\<exists>n s'. (R ^^ n) s s' \<and> \<not> (\<exists>s''. R s' s''))"
  have "\<exists>s'. (R ^^ n) s s'" for n
  proof (induction n)
    case (Suc n)
    with none obtain s' s'' where "(R ^^ n) s s'" "R s' s''" by blast
    then show ?case by (blast intro: relpowp_Suc_I)
  qed (simp add: exI [of _ s])
  then obtain s' where "(R ^^ Suc b) s s'" by blast
  from assms [OF this] show False by simp
qed

text \<open>
  C14: once the listener has failed, in whatever state the interleaving has left the server, let
  \<open>B\<close> be the threads that a silent peer, or one that does not read, blocks for ever. No run of
  the others takes more steps than the three per connection that are left; a run that can go no
  further has left the server at rest but for \<open>B\<close>, and there is such a run. So when no peer
  blocks its thread the descriptors, the result slots and the shared handler are all given back,
  and a blocked thread keeps its share of them for ever. (The other connections keep their
  contracts, and interruptions of a \<^verbatim>\<open>send\<close> on them do not recur for ever.)
\<close>

theorem only_blocked_threads_remain:
  assumes c: "system_fd_calls K T handler env fds" and bind: "tcp_bind K addr (os p) = (Inr l, w1)"
    and free: "\<forall>i\<ge>fresh p. cells p i = None"
    and reach: "(server_step K T handler env sv l)\<^sup>*\<^sup>* (system_start (p\<lparr>os := w1\<rparr>)) s"
    and stopped: "sy_serving s = Stopped e"
    and B: "\<forall>i\<in>B. \<exists>pk. sy_threads s i = Some (Ready pk)"
    and conns: "\<And>i pk. i \<notin> B \<Longrightarrow> sy_threads s i = Some (Ready pk) \<Longrightarrow>
      recv_contract K (cn_stream (closure pk)) (pend i) \<and> send_contract K (cn_stream (closure pk)) (log i) \<and>
      patient_sends K (cn_stream (closure pk)) (m i)"
  shows "(\<forall>n s'. (unblocked_step K T handler sv l B ^^ n) s s' \<longrightarrow> n \<le> system_work s \<and>
      ((\<exists>s''. unblocked_step K T handler sv l B s' s'') \<or> at_rest_except fds p B s s')) \<and>
    (\<exists>s'. (unblocked_step K T handler sv l B)\<^sup>*\<^sup>* s s' \<and> at_rest_except fds p B s s')"
proof -
  let ?R = "unblocked_step K T handler sv l B"
  have start: "winding_down fds l (fds (os p)) p B s s"
    unfolding winding_down_def
    using system_reach_inv [OF reach c free system_start_inv [OF c bind]] stopped by blast
  have every: "n + system_work s' \<le> system_work s \<and> ((\<exists>s''. ?R s' s'') \<or> at_rest_except fds p B s s')"
    if run: "(?R ^^ n) s s'" for n s'
  proof -
    have w: "winding_down fds l (fds (os p)) p B s s'" and n: "n + system_work s' \<le> system_work s"
      using winding_down_run [OF c free run start] by simp_all
    have "\<exists>s''. ?R s' s''" if t: "sy_threads s' i = Some t" "i \<notin> B" for i t
    proof (rule unblocked_progress [OF _ t])
      show "system_inv fds l (fds (os p)) p s'" using winding_down_parts(2) [OF w] .
      show "\<exists>w'. run_connection K handler (closure pk) v = Some ((), w')" if "t = Ready pk" for pk v
      proof -
        have "sy_threads s i = Some (Ready pk)" using winding_down_parts(4) [OF w] t(1) that by blast
        note peer = conns [OF t(2) this]
        show ?thesis
          by (rule connection_returns [OF peer [THEN conjunct1] peer [THEN conjunct2, THEN conjunct1]
                peer [THEN conjunct2, THEN conjunct2]])
      qed
    qed
    then have "(\<exists>s''. ?R s' s'') \<or> at_rest_except fds p B s s'"
      using winding_down_rest [OF w B] by (meson not_Some_eq)
    with n show ?thesis by blast
  qed
  have "\<exists>n s'. (?R ^^ n) s s' \<and> \<not> (\<exists>s''. ?R s' s'')"
    by (rule bounded_runs_end [where b = "system_work s"]) (meson every add_leD1)
  then obtain n s' where run: "(?R ^^ n) s s'" and stuck: "\<not> (\<exists>s''. ?R s' s'')" by blast
  have "?R\<^sup>*\<^sup>* s s'" using run by (rule relpowp_imp_rtranclp)
  moreover have "at_rest_except fds p B s s'" using every [OF run] stuck by blast
  moreover have "n \<le> system_work s \<and> ((\<exists>s''. ?R s' s'') \<or> at_rest_except fds p B s s')"
    if "(?R ^^ n) s s'" for n s'
    using every [OF that] by (meson add_leD1)
  ultimately show ?thesis by blast
qed

lemma quota_connections:
  "recv_contract quota_net st (\<lambda>_. [])" "send_contract quota_net st (\<lambda>_. [])"
  "patient_sends quota_net st (\<lambda>_. 0)"
  by (simp_all add: recv_contract_def send_contract_def patient_sends_def quota_net_def inert_net_def)

abbreviation quota_unblocked :: "nat set \<Rightarrow> (i32 list \<times> nat) system \<Rightarrow> (i32 list \<times> nat) system \<Rightarrow> bool" where
  "quota_unblocked \<equiv> unblocked_step quota_net calm_threads echo_handler server_new \<lparr>listener_fd = 3\<rparr>"

theorem only_blocked_threads_remain_witness:
  "\<exists>s s' s''. quota_step\<^sup>*\<^sup>* (system_start (empty_proc ([3, 9], 1))) s \<and>
     sy_serving s = Stopped (Os (Errno 24)) \<and> sy_threads s 0 \<noteq> None \<and>
     (quota_unblocked {})\<^sup>*\<^sup>* s s' \<and> mset (fst (os (sy_proc s'))) = {#9#} \<and> sy_handler s' = 0 \<and>
     (quota_unblocked {0})\<^sup>*\<^sup>* s s'' \<and> mset (fst (os (sy_proc s''))) = {#9, 5#} \<and> sy_handler s'' = 1"
proof -
  obtain s c where run: "quota_step\<^sup>*\<^sup>* (system_start (empty_proc ([3, 9], 1))) s"
    and s: "sy_serving s = Accepting" "sy_threads s = [0 \<mapsto> Ready \<lparr>closure = c, packet_shared = 0\<rparr>]"
      "stream_fd (cn_stream c) = 5" "os (sy_proc s) = ([5, 3, 9], 0)"
    using quota_accepts_one by blast
  let ?s1 = "s\<lparr>sy_proc := (sy_proc s)\<lparr>os := drop_tcp_listener quota_net \<lparr>listener_fd = 3\<rparr> ([5, 3, 9], 0)\<rparr>,
    sy_serving := Stopped (Os (Errno 24)), sy_handler := sy_handler s - 1\<rparr>"
  have "quota_step s ?s1"
    using s by (intro server_step.stopped) (simp_all add: quota_accept quota_eintr)
  with run have run1: "quota_step\<^sup>*\<^sup>* (system_start (empty_proc ([3, 9], 1))) ?s1"
    by (rule rtranclp.rtrancl_into_rtrancl)
  have stop: "sy_serving ?s1 = Stopped (Os (Errno 24))" by simp
  note rest = only_blocked_threads_remain [OF quota_fd_calls quota_start(1,2), unfolded quota_start(3),
      OF run1 stop, where pend = "\<lambda>_ _. []" and log = "\<lambda>_ _. []" and m = "\<lambda>_ _. 0"]
  obtain s' where one: "(quota_unblocked {})\<^sup>*\<^sup>* ?s1 s'"
    "at_rest_except (\<lambda>w. mset (fst w)) (empty_proc ([9], 1)) {} ?s1 s'"
    using rest [of "{}"] quota_connections by blast
  have "\<forall>i\<in>{0}. \<exists>pk. sy_threads ?s1 i = Some (Ready pk)" by (simp add: s(2))
  moreover have "sy_threads ?s1 i = Some (Ready pk) \<Longrightarrow> i \<in> {0}" for i pk
    by (simp add: s(2) split: if_splits)
  ultimately obtain s'' where two: "(quota_unblocked {0})\<^sup>*\<^sup>* ?s1 s''"
    "at_rest_except (\<lambda>w. mset (fst w)) (empty_proc ([9], 1)) {0} ?s1 s''"
    using rest [of "{0}"] by blast
  have "mset (fst (os (sy_proc s'))) = {#9#}" "sy_handler s' = 0"
    using one(2) by (simp_all only: at_rest_except_def) (simp_all add: empty_proc_def)
  moreover have "mset (fst (os (sy_proc s''))) = {#9, 5#}" "sy_handler s'' = 1"
    using two(2) s(2,3) by (simp_all only: at_rest_except_def) (simp_all add: empty_proc_def)
  moreover have "sy_threads ?s1 0 \<noteq> None" by (simp add: s(2))
  ultimately show ?thesis using run1 stop one(1) two(1) by blast
qed

end
