(* ===== verification/Server_Isolation.thy ===== *)
theory Server_Isolation
  imports Server_System
begin

text \<open>
  The connections of one server do not disturb each other: what a peer is sent comes from its
  own connection's thread alone, and is a prefix of one answer.
\<close>

text \<open>
  What has been sent on a descriptor since it was opened (\<open>log\<close>) is changed by sending and
  closing on that descriptor only; a connection that is accepted has a descriptor that was not
  open, with nothing sent.
\<close>

definition private_channels ::
  "('w, 'x) net_sys_scheme \<Rightarrow> ('w, connection packet) thread_sys \<Rightarrow> (request \<Rightarrow> 'w \<Rightarrow> response \<times> 'w) \<Rightarrow>
   ('w \<Rightarrow> 'w \<Rightarrow> bool) \<Rightarrow> ('w \<Rightarrow> i32 multiset) \<Rightarrow> (i32 \<Rightarrow> 'w \<Rightarrow> u8 list) \<Rightarrow> bool" where
  "private_channels K T handler env fds log \<longleftrightarrow>
     (\<forall>l sa len w r sa' w'. net_accept K l sa len w = ((r, sa'), w') \<longrightarrow>
        (r \<noteq> -1 \<longrightarrow> r \<notin># fds w \<and> log r w' = []) \<and>
        (\<forall>fd. r = -1 \<or> fd \<noteq> r \<longrightarrow> log fd w' = log fd w)) \<and>
     (\<forall>c n fl w fd. log fd (snd (net_recv K c n fl w)) = log fd w) \<and>
     (\<forall>c how w fd. log fd (snd (net_shutdown K c how w)) = log fd w) \<and>
     (\<forall>c buf fl w fd. fd \<noteq> c \<longrightarrow> log fd (snd (net_send K c buf fl w)) = log fd w) \<and>
     (\<forall>c w fd. fd \<noteq> c \<longrightarrow> log fd (snd (net_close K c w)) = log fd w) \<and>
     (\<forall>a pk w fd. log fd (snd (pt_create T a pk w)) = log fd w) \<and>
     attr_calls T (\<lambda>w fd. log fd w) \<and>
     (\<forall>req w fd. log fd (snd (handler req w)) = log fd w) \<and>
     (\<forall>w w' fd. env w w' \<longrightarrow> log fd w' = log fd w)"

lemma private_channels_parts:
  assumes "private_channels K T handler env fds log"
  shows "net_accept K c sa len w = ((r, sa'), w') \<Longrightarrow> r \<noteq> -1 \<Longrightarrow> r \<notin># fds w \<and> log r w' = []"
    and "net_accept K c sa len w = ((r, sa'), w') \<Longrightarrow> r = -1 \<or> fd \<noteq> r \<Longrightarrow> log fd w' = log fd w"
    and "log fd (snd (net_recv K c n fl w)) = log fd w"
    and "log fd (snd (net_shutdown K c how w)) = log fd w"
    and "fd \<noteq> c \<Longrightarrow> log fd (snd (net_send K c buf fl w)) = log fd w"
    and "fd \<noteq> c \<Longrightarrow> log fd (close_fd K c w) = log fd w"
    and "log fd (snd (pt_create T a pk w)) = log fd w"
    and "attr_calls T (\<lambda>w fd. log fd w)"
    and "log fd (snd (handler req w)) = log fd w"
    and "env w w' \<Longrightarrow> log fd w' = log fd w"
proof -
  note accepts = assms [unfolded private_channels_def, THEN conjunct1, rule_format]
  show "net_accept K c sa len w = ((r, sa'), w') \<Longrightarrow> r \<noteq> -1 \<Longrightarrow> r \<notin># fds w \<and> log r w' = []"
    using accepts by blast
  show "net_accept K c sa len w = ((r, sa'), w') \<Longrightarrow> r = -1 \<or> fd \<noteq> r \<Longrightarrow> log fd w' = log fd w"
    using accepts by blast
qed (use assms in \<open>simp add: private_channels_def close_fd_def; fail\<close>)+

section \<open>Who touches a channel\<close>

lemma accept_channels:
  assumes c: "private_channels K T handler env fds log" and acc: "tcp_accept K l w = (r, w')"
  shows "r = Inl e \<Longrightarrow> log fd w' = log fd w"
    and "r = Inr (st, peer) \<Longrightarrow> stream_fd st \<notin># fds w \<and> log (stream_fd st) w' = []"
    and "r = Inr (st, peer) \<Longrightarrow> fd \<noteq> stream_fd st \<Longrightarrow> log fd w' = log fd w"
proof -
  obtain x sa w1 where a: "net_accept K (listener_fd l) zeroed_sockaddr_in (SOCKADDR_IN_LEN K) w = ((x, sa), w1)"
    by (metis prod.exhaust)
  note calls = private_channels_parts(1) [OF c a] private_channels_parts(2) [OF c a, of fd]
  show "log fd w' = log fd w" if "r = Inl e"
    using that acc a calls by (auto simp: tcp_accept_def cvt_i32_def Let_def split: if_splits)
  show "stream_fd st \<notin># fds w \<and> log (stream_fd st) w' = []" if "r = Inr (st, peer)"
    using that acc a calls by (auto simp: tcp_accept_def cvt_i32_def Let_def split: if_splits)
  show "log fd w' = log fd w" if "r = Inr (st, peer)" "fd \<noteq> stream_fd st"
    using that acc a calls by (auto simp: tcp_accept_def cvt_i32_def Let_def split: if_splits)
qed

lemma spawn_channels:
  assumes c: "private_channels K T handler env fds log"
    and sp: "builder_spawn T (drop_connection K) b cn p = (r, p2)"
    and own: "\<And>e. r = Inl e \<Longrightarrow> fd \<noteq> stream_fd (cn_stream cn)"
  shows "log fd (os p2) = log fd (os p)"
proof -
  let ?p2 = "arc_clone (fresh p) (snd (arc_new p))"
  let ?pk = "\<lparr>closure = cn, packet_shared = fresh p\<rparr>"
  obtain rc g w where ct: "create_thread T (stack_size b) ?pk (os ?p2) = ((rc, g), w)"
    by (metis prod.exhaust)
  have "(\<lambda>fd. log fd w) = (\<lambda>fd. log fd (os ?p2))"
    by (rule create_thread_observed [where f = "\<lambda>_ x. x" and own = "\<lambda>w fd. log fd w",
          OF private_channels_parts(8) [OF c] _ _ ct])
      (use private_channels_parts(7) [OF c] in \<open>metis snd_conv\<close>, simp)
  then have w: "log fd w = log fd (os p)"
    using fun_cong [of "\<lambda>fd. log fd w" "\<lambda>fd. log fd (os ?p2)" fd]
    by (simp add: arc_new_def arc_clone_def)
  show ?thesis
  proof (cases r)
    case (Inl e)
    with own have other: "fd \<noteq> stream_fd (cn_stream cn)" by blast
    from sp ct w Inl private_channels_parts(6) [OF c other] show ?thesis
      by (auto simp: builder_spawn_def Let_def arc_new_def arc_clone_def drop_packet_def arc_drop_def
          drop_connection_def drop_tcp_stream_def split: if_splits)
  next
    case (Inr h)
    with sp ct w show ?thesis
      by (auto simp: builder_spawn_def Let_def arc_new_def arc_clone_def split: if_splits)
  qed
qed

lemma connection_channels:
  assumes c: "private_channels K T handler env fds log"
    and run: "run_connection K handler cn w = Some (u, w')" and "fd \<noteq> stream_fd (cn_stream cn)"
  shows "log fd w' = log fd w"
proof -
  let ?s = "cn_stream cn"
  note calls = private_channels_parts [OF c]
  have reads: "log fd w' = log fd w" if "tcp_read K ?s buf w = (r, buf', w')" for buf w r buf' w'
    using that calls(3) [of fd "stream_fd ?s" "length buf" 0 w]
    by (auto simp: tcp_read_def recv_fd_def cvt_ssize_def split: prod.splits if_splits)
  have writes: "log fd w' = log fd w" if "tcp_write K ?s buf w = (r, w')" for buf w r w'
    using that calls(5) [OF assms(3), of buf 0 w]
    by (auto simp: tcp_write_def send_fd_def cvt_ssize_def split: prod.splits if_splits)
  have shuts: "log fd (snd (tcp_shutdown K ?s how w)) = log fd w" for how w
    using calls(4) by (auto simp: tcp_shutdown_def Let_def cvt_i32_def split: prod.splits)
      (metis snd_conv)+
  from run obtain x w1 where
    serves: "serve_connection K ?s handler (cn_limits cn) w = Some (Inr x, w1)"
    and w': "w' = drop_connection K cn w1"
    by (auto simp: run_connection_def split: option.splits sum.splits)
  have "log fd w1 = log fd w"
    by (rule serve_connection_keeps [where f = "log fd", OF _ _ _ _ serves])
      (use reads writes shuts calls(9) in blast)+
  with calls(6) [OF assms(3)] show ?thesis
    by (simp add: w' drop_connection_def drop_tcp_stream_def)
qed

section \<open>No channel is shared\<close>

definition distinct_fds :: "i32 multiset \<Rightarrow> bool" where
  "distinct_fds M \<longleftrightarrow> (\<forall>fd. count M fd \<le> 1)"

lemma distinct_fds_add [simp]: "distinct_fds (add_mset fd M) \<longleftrightarrow> fd \<notin># M \<and> distinct_fds M"
proof -
  have "count (add_mset fd M) x \<le> 1 \<longleftrightarrow> (x = fd \<longrightarrow> fd \<notin># M) \<and> count M x \<le> 1" for x
    by (auto simp: not_in_iff)
  then show ?thesis unfolding distinct_fds_def by blast
qed

lemma distinct_fds_part:
  assumes "distinct_fds (A + B)"
  shows "distinct_fds A" and "distinct_fds B"
proof -
  have "count A x + count B x \<le> 1" for x using assms by (simp add: distinct_fds_def)
  from add_leD1 [OF this] add_leD2 [OF this] show "distinct_fds A" and "distinct_fds B"
    by (simp_all add: distinct_fds_def)
qed

lemma distinct_fds_diff [simp]: "distinct_fds M \<Longrightarrow> distinct_fds (M - N)"
  by (simp add: distinct_fds_def) (meson diff_le_self order_trans)

text \<open>A thread that has not closed its stream shares its descriptor with nobody.\<close>

lemma thread_fd_alone:
  assumes inv: "system_inv fds l base p s" and distinct: "distinct_fds (fds (os (sy_proc s)))"
    and i: "sy_threads s i = Some (Ready pk)"
  shows "stream_fd (cn_stream (closure pk)) \<in># fds (os (sy_proc s))"
    and "stream_fd (cn_stream (closure pk)) \<notin># serving_fds l (sy_serving s)"
    and "sy_threads s j = Some (Ready pk') \<Longrightarrow> j \<noteq> i \<Longrightarrow>
      stream_fd (cn_stream (closure pk')) \<noteq> stream_fd (cn_stream (closure pk))"
proof -
  let ?fd = "stream_fd (cn_stream (closure pk))"
  let ?sum = "\<lambda>m. \<Sum>j<fresh (sy_proc s). phase_fds (m j)"
  let ?others = "(sy_threads s)(i := None)"
  have "?sum (sy_threads s) = add_mset ?fd (?sum ?others)"
    using sum_phase_update [OF system_thread(2) [OF inv i], of "sy_threads s" None] i by simp
  with inv have fds: "fds (os (sy_proc s)) =
      add_mset ?fd (base + serving_fds l (sy_serving s) + ?sum ?others)"
    by (simp add: system_inv_def system_fds_def)
  then show "?fd \<in># fds (os (sy_proc s))" by simp
  from fds distinct have alone: "?fd \<notin># serving_fds l (sy_serving s)" "?fd \<notin># ?sum ?others"
    by simp_all
  then show "?fd \<notin># serving_fds l (sy_serving s)" by blast
  assume j: "sy_threads s j = Some (Ready pk')" "j \<noteq> i"
  have "?sum ?others = add_mset (stream_fd (cn_stream (closure pk'))) (?sum (?others(j := None)))"
    using sum_phase_update [OF system_thread(2) [OF inv j(1)], of ?others None] j by simp
  with alone(2) show "stream_fd (cn_stream (closure pk')) \<noteq> ?fd" by auto
qed

definition isolated ::
  "('w \<Rightarrow> i32 multiset) \<Rightarrow> (i32 \<Rightarrow> 'w \<Rightarrow> u8 list) \<Rightarrow> 'w system \<Rightarrow> bool" where
  "isolated fds log s \<longleftrightarrow> distinct_fds (fds (os (sy_proc s))) \<and>
     (\<forall>st. sy_serving s = Holding st \<longrightarrow> log (stream_fd st) (os (sy_proc s)) = []) \<and>
     (\<forall>i pk. sy_threads s i = Some (Ready pk) \<longrightarrow>
        log (stream_fd (cn_stream (closure pk))) (os (sy_proc s)) = [])"

lemma server_step_isolated:
  assumes "server_step K T handler env sv l s s'" and c: "system_fd_calls K T handler env fds"
    and ch: "private_channels K T handler env fds log"
    and "system_inv fds l base p s" and "isolated fds log s"
  shows "isolated fds log s'"
  using assms(1,4,5)
proof (induction rule: server_step.induct)
  case (accepted s stream peer w1)
  note new = accept_channels(2,3) [OF ch accepted.hyps(2) refl]
  from accepted accept_ledger [OF system_fd_parts(1) [OF c] accepted.hyps(2)] new
    thread_fd_alone(1) [OF accepted.prems(1)]
  show ?case by (auto simp: isolated_def) metis
next
  case (again s e w1)
  from again accept_ledger [OF system_fd_parts(1) [OF c] again.hyps(2)]
    accept_channels(1) [OF ch again.hyps(2) refl]
  show ?case by (auto simp: isolated_def)
next
  case (stopped s e w1)
  have "stream_fd (cn_stream (closure pk)) \<noteq> listener_fd l" if "sy_threads s i = Some (Ready pk)" for i pk
    using thread_fd_alone(2) [OF stopped.prems(1) _ that] stopped by (auto simp: isolated_def serving_fds_def)
  with stopped accept_ledger [OF system_fd_parts(1) [OF c] stopped.hyps(2)]
    accept_channels(1) [OF ch stopped.hyps(2) refl] fd_call(3) [OF system_fd_parts(1) [OF c]]
    private_channels_parts(6) [OF ch]
  show ?case by (auto simp: isolated_def drop_tcp_listener_def)
next
  case (spawned s stream cn h p2)
  note sp = spawn_in_system [OF c spawned.hyps(3)]
  have "log fd (os (drop_join_handle T h p2)) = log fd (os (sy_proc s))" for fd
    using spawn_channels [OF ch spawned.hyps(3), of fd]
      fun_cong [OF attr_call(4) [OF private_channels_parts(8) [OF ch]], where x = fd]
    by (simp add: drop_join_handle_def)
  moreover have "fds (os (drop_join_handle T h p2)) = fds (os (sy_proc s))"
    using sp(2) [OF refl] attr_call(4) [OF system_fd_parts(2) [OF c]] by (simp add: drop_join_handle_def)
  ultimately show ?case using spawned by (auto simp: isolated_def)
next
  case (refused s stream cn e p2)
  note sp = spawn_in_system(3) [OF c refused.hyps(3) refl]
  have "log fd (os p2) = log fd (os (sy_proc s))" if "fd \<noteq> stream_fd stream" for fd
    using spawn_channels [OF ch refused.hyps(3)] that refused.hyps(2) by simp
  moreover have "stream_fd (cn_stream (closure pk)) \<noteq> stream_fd stream"
    if "sy_threads s i = Some (Ready pk)" for i pk
    using thread_fd_alone(2) [OF refused.prems(1) _ that] refused by (auto simp: isolated_def serving_fds_def)
  ultimately show ?case using refused sp by (auto simp: isolated_def)
next
  case (call s i pk u w1)
  note alone = thread_fd_alone [OF call.prems(1) _ call.hyps(1)]
  note others = connection_channels [OF ch call.hyps(2)]
  from call connection_run_fds [OF c call.hyps(2)] alone(2,3) others
  show ?case by (auto simp: isolated_def serving_fds_def)
next
  case (store s i a u)
  then show ?case by (auto simp: isolated_def slot_store_def split: option.split)
next
  case (release s i a u)
  then show ?case by (auto simp: isolated_def arc_drop_def split: option.split)
next
  case (outside s w1)
  with system_fd_parts(4) [OF c outside.hyps] private_channels_parts(10) [OF ch outside.hyps]
  show ?case by (auto simp: isolated_def)
qed

lemma system_reach_isolated:
  assumes "(server_step K T handler env sv l)\<^sup>*\<^sup>* s s'" and c: "system_fd_calls K T handler env fds"
    and ch: "private_channels K T handler env fds log" and free: "\<forall>i\<ge>fresh p. cells p i = None"
    and "system_inv fds l base p s \<and> isolated fds log s"
  shows "system_inv fds l base p s' \<and> isolated fds log s'"
  by (rule steps_keep [where I = "\<lambda>s. system_inv fds l base p s \<and> isolated fds log s", OF assms(1) _ assms(5)])
    (metis server_step_inv [OF _ c free] server_step_isolated [OF _ c ch])

text \<open>
  C13: the connections of one server do not disturb each other. Under every interleaving, no
  two connections share a descriptor and nothing is sent to a connection before its own thread
  runs; that thread sends a prefix of the one answer to what it reads, and what the other
  connections were sent stays as it was.
\<close>

theorem connections_are_isolated:
  assumes c: "system_fd_calls K T handler env fds" and ch: "private_channels K T handler env fds log"
    and bind: "tcp_bind K addr (os p) = (Inr l, w1)" and "distinct_fds (fds w1)"
    and free: "\<forall>i\<ge>fresh p. cells p i = None"
    and run: "(server_step K T handler env sv l)\<^sup>*\<^sup>* (system_start (p\<lparr>os := w1\<rparr>)) s"
    and i: "sy_threads s i = Some (Ready pk)"
    and peer: "recv_contract K (cn_stream (closure pk)) pend"
      "send_contract K (cn_stream (closure pk)) (log (stream_fd (cn_stream (closure pk))))"
    and call: "run_connection K handler (closure pk) (os (sy_proc s)) = Some (u, w')"
  shows "(\<forall>j pk'. sy_threads s j = Some (Ready pk') \<longrightarrow> j \<noteq> i \<longrightarrow>
      stream_fd (cn_stream (closure pk')) \<noteq> stream_fd (cn_stream (closure pk))) \<and>
    log (stream_fd (cn_stream (closure pk))) (os (sy_proc s)) = [] \<and>
    (\<forall>fd. fd \<noteq> stream_fd (cn_stream (closure pk)) \<longrightarrow> log fd w' = log fd (os (sy_proc s))) \<and>
    (\<exists>w2 rest. w' = drop_connection K (closure pk) w2 \<and>
      answer handler (read_request K (cn_stream (closure pk)) (cn_limits (closure pk)) (os (sy_proc s))) =
        log (stream_fd (cn_stream (closure pk))) w2 @ rest)"
proof -
  let ?s = "cn_stream (closure pk)"
  let ?w = "os (sy_proc s)"
  have "isolated fds log (system_start (p\<lparr>os := w1\<rparr>))"
    using assms(4) by (simp add: isolated_def system_start_def)
  with system_reach_isolated [OF run c ch free] system_start_inv [OF c bind]
  have inv: "system_inv fds l (fds (os p)) p s" and iso: "isolated fds log s" by blast+
  then have distinct: "distinct_fds (fds ?w)" and silent: "log (stream_fd ?s) ?w = []"
    using i by (auto simp: isolated_def)
  obtain w2 x where serves: "serve_connection K ?s handler (cn_limits (closure pk)) ?w = Some (x, w2)"
    and w': "w' = drop_connection K (closure pk) w2"
    using call by (auto simp: run_connection_def split: option.splits sum.splits)
  have "conn_contract K ?s pend (log (stream_fd ?s))"
    using peer private_channels_parts(3,4) [OF ch] by (simp add: conn_contract_def) (metis snd_conv)
  from answered_at_most_once [OF this private_channels_parts(9) [OF ch] serves] silent
  show ?thesis
    using thread_fd_alone(3) [OF inv distinct i] connection_channels [OF ch call] silent w' by auto
qed

section \<open>An example run\<close>

text \<open>
  A system that hands out one descriptor, takes at most two bytes per \<^verbatim>\<open>send\<close>, fails every
  \<^verbatim>\<open>recv\<close> and remembers what was sent where.
\<close>

definition mail_net :: "(i32 list \<times> nat \<times> (i32 \<Rightarrow> u8 list)) net_sys" where
  "mail_net = inert_net
     \<lparr>sys_errno := (\<lambda>_. 54),
      net_socket := (\<lambda>_ _ _ (o', n, sent). (3, (3 # o', n, sent))),
      net_setsockopt := (\<lambda>_ _ _ _ _ w. (0, w)), net_bind := (\<lambda>_ _ _ w. (0, w)),
      net_listen := (\<lambda>_ _ w. (0, w)),
      net_accept := (\<lambda>_ sa _ (o', n, sent).
        if n = 0 \<or> 5 \<in> set o' then ((-1, sa), (o', n, sent))
        else ((5, sa), (5 # o', n - 1, sent(5 := [])))),
      net_send := (\<lambda>fd buf _ (o', n, sent).
        (of_nat (min 2 (length buf)), (o', n, sent(fd := sent fd @ take 2 buf)))),
      net_close := (\<lambda>fd (o', n, sent). (0, (remove1 fd o', n, sent)))\<rparr>"

lemma mail_io:
  "net_recv mail_net fd len fl w = ((-1, []), w)"
  "net_send mail_net fd buf fl (o', n, sent) =
     (of_nat (min 2 (length buf)), (o', n, sent(fd := sent fd @ take 2 buf)))"
  "net_shutdown mail_net fd how w = (-1, w)"
  by (simp_all add: mail_net_def inert_net_def)

lemma mail_calls:
  "system_fd_calls mail_net calm_threads echo_handler (\<lambda>_ _. False) (\<lambda>w. mset (fst w))"
  "private_channels mail_net calm_threads echo_handler (\<lambda>_ _. False) (\<lambda>w. mset (fst w)) (\<lambda>fd w. snd (snd w) fd)"
  unfolding system_fd_calls_def private_channels_def fd_calls_def attr_calls_def mail_net_def
    inert_net_def calm_threads_def echo_handler_def
  by (auto split: if_splits)

lemma mail_peer:
  "recv_contract mail_net st (\<lambda>_. [])"
  "send_contract mail_net st (\<lambda>w. snd (snd w) (stream_fd st))"
proof -
  have "take 2 buf = take (min 2 (length buf)) buf" for buf :: "u8 list" by (simp add: min_def)
  then show "recv_contract mail_net st (\<lambda>_. [])"
    "send_contract mail_net st (\<lambda>w. snd (snd w) (stream_fd st))"
    by (auto simp: recv_contract_def send_contract_def mail_io of_nat_min_2)
qed

lemma mail_connection:
  "\<exists>w'. run_connection mail_net echo_handler c w = Some ((), w')"
proof -
  let ?s = "cn_stream c"
  have "\<exists>e w1. read_request mail_net ?s lim w = (Inl (Fail e), w1)" for lim
    by (cases w) (simp add: read_request_def read_head.simps tcp_read_def recv_fd_def cvt_ssize_def mail_io)
  then obtain e w1 where rd: "read_request mail_net ?s (cn_limits c) w = (Inl (Fail e), w1)" by blast
  have "conn_contract mail_net ?s (\<lambda>_. []) (\<lambda>w. snd (snd w) (stream_fd ?s))"
    by (simp add: conn_contract_def mail_peer mail_io)
  moreover have "\<forall>buf w ret w'. net_send mail_net (stream_fd ?s) buf 0 w = (ret, w') \<longrightarrow>
      ret \<noteq> -1 \<and> (buf \<noteq> [] \<longrightarrow> ret \<noteq> 0)"
    using of_nat_min_2 by (auto simp: mail_io split: prod.splits)
      (metis length_greater_0_conv min_less_iff_conj not_gr_zero unat_0 zero_less_numeral)
  ultimately obtain w2 where "respond mail_net ?s bad_request w1 = Some (Inr (), w2)"
    using response_is_sent [where K = mail_net and s = ?s] by blast
  then have "run_connection mail_net echo_handler c w = Some ((), drop_connection mail_net c w2)"
    by (simp add: run_connection_def serve_connection_def rd)
  then show ?thesis by blast
qed

theorem connections_are_isolated_witness:
  "\<exists>s pk w' w2 rest. (server_step mail_net calm_threads echo_handler (\<lambda>_ _. False) server_new \<lparr>listener_fd = 3\<rparr>)\<^sup>*\<^sup>*
      (system_start (empty_proc ([3, 9], 1, \<lambda>_. []))) s \<and>
    sy_threads s 0 = Some (Ready pk) \<and> stream_fd (cn_stream (closure pk)) = 5 \<and>
    w' = drop_connection mail_net (closure pk) w2 \<and> snd (snd w') 9 = [] \<and>
    answer echo_handler (read_request mail_net (cn_stream (closure pk)) (cn_limits (closure pk)) (os (sy_proc s))) =
      snd (snd w2) 5 @ rest"
proof -
  let ?p = "empty_proc ([9], 1, \<lambda>_. []) :: (unit, i32 list \<times> nat \<times> (i32 \<Rightarrow> u8 list)) proc"
  let ?w1 = "([3, 9], 1, \<lambda>_. []) :: i32 list \<times> nat \<times> (i32 \<Rightarrow> u8 list)"
  have bind: "tcp_bind mail_net (V4 \<lparr>v4_ip = (0, 0, 0, 0), v4_port = 80\<rparr>) (os ?p) =
      (Inr \<lparr>listener_fd = 3\<rparr>, ?w1)"
    by (simp add: tcp_bind_def require_v4_def new_socket_def setsockopt_int_def cvt_i32_def Let_def
        mail_net_def inert_net_def empty_proc_def)
  have start: "?p\<lparr>os := ?w1\<rparr> = empty_proc ?w1" "\<forall>i\<ge>fresh ?p. cells ?p i = None"
    "distinct_fds (mset (fst ?w1))"
    by (simp_all add: empty_proc_def distinct_fds_def)
  obtain peer where acc: "tcp_accept mail_net \<lparr>listener_fd = 3\<rparr> ?w1 =
      (Inr (\<lparr>stream_fd = 5\<rparr>, peer), ([5, 3, 9], 0, (\<lambda>_. [])(5 := [])))"
    by (simp add: tcp_accept_def cvt_i32_def Let_def mail_net_def)
  obtain s c where run: "(server_step mail_net calm_threads echo_handler (\<lambda>_ _. False) server_new \<lparr>listener_fd = 3\<rparr>)\<^sup>*\<^sup>*
      (system_start (empty_proc ?w1)) s"
    and s: "sy_threads s = [0 \<mapsto> Ready \<lparr>closure = c, packet_shared = 0\<rparr>]" "stream_fd (cn_stream c) = 5"
      "os (sy_proc s) = ([5, 3, 9], 0, (\<lambda>_. [])(5 := []))"
    using first_connection [OF acc] by fastforce
  obtain w' where call: "run_connection mail_net echo_handler c (os (sy_proc s)) = Some ((), w')"
    using mail_connection by blast
  have t: "sy_threads s 0 = Some (Ready \<lparr>closure = c, packet_shared = 0\<rparr>)" by (simp add: s)
  note facts = connections_are_isolated [OF mail_calls bind start(3,2) run [folded start(1)] t,
      unfolded packet.simps, OF mail_peer call]
  from facts [THEN conjunct2, THEN conjunct2, THEN conjunct1] have nine: "snd (snd w') 9 = []"
    by (simp add: s(2,3))
  from facts [THEN conjunct2, THEN conjunct2, THEN conjunct2] obtain w2 rest where
    "w' = drop_connection mail_net c w2" and "answer echo_handler
      (read_request mail_net (cn_stream c) (cn_limits c) (os (sy_proc s))) = snd (snd w2) 5 @ rest"
    by (auto simp only: s(2))
  with run t s(2) nine show ?thesis
    by (intro exI [of _ s] exI [of _ "\<lparr>closure = c, packet_shared = 0\<rparr>"] exI [of _ w'] exI [of _ w2]
        exI [of _ rest] conjI) (simp_all only: packet.simps)
qed

end
