(* ===== verification/Str_Cuts.thy ===== *)
theory Str_Cuts
  imports Rust_Str
begin

text \<open>
  Rust's \<^verbatim>\<open>str\<close> is valid UTF-8 by type. The model's strings are byte lists, so that splitting,
  trimming and cutting them keeps that promise is proved here: a valid string cut where a
  character starts gives valid pieces, and all the operations cut there.
\<close>

section \<open>Cutting where a character starts\<close>

lemma second_is_cont: "second_of_3 b c \<Longrightarrow> is_cont c" "second_of_4 b c \<Longrightarrow> is_cont c"
  by (auto simp: second_of_3_def second_of_4_def is_cont_def word_le_nat_alt split: if_splits)

lemma utf8_next_cont:
  assumes "utf8_next bs = Inr n" and "0 < i" and "i < n"
  shows "is_cont (byte_at bs i)"
proof -
  have le: "n \<le> 4" using assms(1) by (auto simp: utf8_next_def Let_def split: if_splits)
  with assms(2,3) consider "i = 1" | "i = 2" | "i = 3" by linarith
  then show ?thesis
    by cases (use assms in \<open>auto simp: utf8_next_def Let_def split: if_splits dest: second_is_cont\<close>)
qed

lemma utf8_valid_hd: "utf8_valid bs \<Longrightarrow> bs \<noteq> [] \<Longrightarrow> \<not> is_cont (hd bs)"
  by (cases bs)
     (auto simp: utf8_valid.simps [of "a # as" for a as] utf8_next_def byte_at_def is_cont_def Let_def
       word_le_nat_alt word_less_nat_alt split: if_splits sum.splits)

lemma utf8_valid_cut:
  assumes "utf8_valid (xs @ ys)" and "ys = [] \<or> \<not> is_cont (hd ys)"
  shows "utf8_valid xs \<and> utf8_valid ys"
  using assms
proof (induction "length xs" arbitrary: xs rule: less_induct)
  case less
  show ?case
  proof (cases "xs = []")
    case False
    with less.prems(1) obtain n where n: "utf8_next (xs @ ys) = Inr n"
      and rest: "utf8_valid (drop n (xs @ ys))"
      by (auto simp: utf8_valid.simps [of "xs @ ys"] split: sum.splits)
    have le: "n \<le> length xs"
    proof (rule ccontr)
      assume "\<not> n \<le> length xs"
      then have "is_cont (byte_at (xs @ ys) (length xs))"
        using False by (intro utf8_next_cont [OF n]) auto
      with less.prems(2) show False
        by (cases ys) (auto simp: byte_at_def nth_append)
    qed
    have "utf8_next xs = Inr n"
      using le by (intro utf8_next_cong [OF n]) (auto simp: byte_at_def nth_append)
    moreover have "length (drop n xs) < length xs"
      using utf8_next_pos n False by fastforce
    then have "utf8_valid (drop n xs) \<and> utf8_valid ys"
      using less.hyps [of "drop n xs"] rest le less.prems(2) by simp
    ultimately show ?thesis using False by (simp add: utf8_valid.simps [of xs])
  qed (use less.prems in simp)
qed

text \<open>The same on strings. ASCII characters start a character, and so does any valid string.\<close>

definition starts_char :: "string \<Rightarrow> bool" where
  "starts_char s \<longleftrightarrow> s = [] \<or> \<not> is_cont (byte_of (hd s))"

lemma starts_char_ascii: "of_char c < (0x80 :: nat) \<Longrightarrow> starts_char (c # s)"
  by (simp add: starts_char_def is_cont_def word_le_nat_alt unat_byte_of)

lemma starts_char_valid: "str_valid s \<Longrightarrow> s \<noteq> [] \<Longrightarrow> starts_char (s @ t)"
  using utf8_valid_hd [of "bytes_of s"] by (cases s) (auto simp: starts_char_def str_valid_def)

lemma str_valid_cut:
  assumes "str_valid (s @ t)" and "starts_char t"
  shows "str_valid s" and "str_valid t"
proof -
  have "bytes_of t = [] \<or> \<not> is_cont (hd (bytes_of t))"
    using assms(2) by (cases t) (auto simp: starts_char_def)
  with assms(1) utf8_valid_cut [of "bytes_of s" "bytes_of t"] show "str_valid s" "str_valid t"
    by (simp_all add: str_valid_def)
qed

lemma str_valid_rest: "str_valid (s @ t) \<Longrightarrow> str_valid s \<Longrightarrow> str_valid t"
  by (simp add: str_valid_def utf8_valid_append)

lemma str_valid_front: "str_valid (s @ t) \<Longrightarrow> str_valid t \<Longrightarrow> str_valid s"
  using str_valid_cut(1) [of s t] starts_char_valid [of t "[]"] by (cases "t = []") auto

lemma str_valid_split_at:
  assumes "str_valid (s @ c # t)" and "of_char c < (0x80 :: nat)"
  shows "str_valid s" and "str_valid t"
proof -
  show "str_valid s" using str_valid_cut(1) [OF assms(1)] starts_char_ascii [OF assms(2)] .
  have "str_valid (c # t)" using str_valid_cut(2) [OF assms(1)] starts_char_ascii [OF assms(2)] .
  then show "str_valid t"
    using str_valid_rest [of "[c]" t] str_valid_ascii [of "[c]"] assms(2) by simp
qed

section \<open>Pieces of a split\<close>

text \<open>The pieces put together again with the separator.\<close>

fun join_with :: "string \<Rightarrow> string list \<Rightarrow> string" where
  "join_with sep [] = []"
| "join_with sep [l] = l"
| "join_with sep (l # m # ls) = l @ sep @ join_with sep (m # ls)"

lemma join_with_Cons: "ls \<noteq> [] \<Longrightarrow> join_with sep (l # ls) = l @ sep @ join_with sep ls"
  by (cases ls) auto

lemma join_with_extend: "join_with sep ((x # l) # ls) = x # join_with sep (l # ls)"
  by (cases ls) auto

lemma join_split_char: "join_with [c] (split_char c s) = s"
  by (induction s) (auto simp: join_with_Cons join_with_extend split: list.splits)

lemma join_split_crlf: "join_with [CR, LF] (split_crlf s) = s"
  by (induction s rule: split_crlf.induct)
     (auto simp: join_with_Cons join_with_extend split: list.splits)

lemma str_valid_pieces:
  assumes "str_valid (join_with (c # sep) ls)" and "\<forall>x \<in> set (c # sep). of_char x < (0x80 :: nat)"
  shows "\<forall>l \<in> set ls. str_valid l"
  using assms(1)
proof (induction ls)
  case (Cons l ls)
  show ?case
  proof (cases "ls = []")
    case False
    then have v: "str_valid (l @ c # (sep @ join_with (c # sep) ls))"
      using Cons.prems by (simp add: join_with_Cons)
    then have "str_valid l" "str_valid (sep @ join_with (c # sep) ls)"
      using assms(2) by (auto dest: str_valid_split_at)
    moreover have "str_valid sep" using assms(2) by (intro str_valid_ascii) simp
    ultimately have "str_valid (join_with (c # sep) ls)" by (blast intro: str_valid_rest)
    with Cons.IH \<open>str_valid l\<close> show ?thesis by simp
  qed (use Cons.prems in simp)
qed simp

lemma split_char_pieces:
  assumes "p \<in> set (split_char c s)"
  shows "c \<notin> set p" and "sublist p s"
    and "str_valid s \<Longrightarrow> of_char c < (0x80 :: nat) \<Longrightarrow> str_valid p"
proof -
  show "c \<notin> set p"
    using assms by (induction s arbitrary: p) (auto split: if_splits list.splits)
  have piece: "p \<in> set ls \<Longrightarrow> sublist p (join_with sep ls)" for sep ls
  proof (induction ls)
    case (Cons l ls)
    show ?case
    proof (cases "ls = []")
      case False
      have "sublist l (l @ sep @ join_with sep ls)" by (rule prefix_imp_sublist) simp
      moreover have "sublist (join_with sep ls) (l @ sep @ join_with sep ls)"
        by (rule suffix_imp_sublist) (simp add: suffix_def)
      ultimately show ?thesis
        using Cons False by (auto simp: join_with_Cons intro: sublist_order.order_trans)
    qed (use Cons in simp)
  qed simp
  show "sublist p s" using piece [of "split_char c s" "[c]"] assms by (simp add: join_split_char)
  show "str_valid p" if "str_valid s" "of_char c < (0x80 :: nat)"
    using str_valid_pieces [of c "[]" "split_char c s"] that assms by (simp add: join_split_char)
qed

lemma split_crlf_front: "split_crlf (y # xs) = p # ps \<Longrightarrow> p = [] \<or> hd p = y"
  by (cases xs) (auto split: if_splits list.splits)

lemma split_crlf_pieces:
  assumes "p \<in> set (split_crlf s)"
  shows "\<not> sublist [CR, LF] p" and "str_valid s \<Longrightarrow> str_valid p"
proof -
  show "\<not> sublist [CR, LF] p"
    using assms
  proof (induction s arbitrary: p rule: split_crlf.induct)
    case (3 x y xs)
    obtain q qs where q: "split_crlf (y # xs) = q # qs" by (cases "split_crlf (y # xs)") auto
    show ?case
    proof (cases "x = CR \<and> y = LF")
      case False
      have "\<not> sublist [CR, LF] r" if "r \<in> set (q # qs)" for r
        using "3.IH"(2) [OF False, of r] that q by simp
      moreover have "\<not> prefix [CR, LF] (x # q)"
        using False split_crlf_front [OF q] by (cases q) auto
      ultimately show ?thesis
        using "3.prems" False q by (auto simp: sublist_Cons_right)
    qed (use "3.prems" "3.IH"(1) in \<open>auto simp: sublist_def\<close>)
  qed (auto simp: sublist_Cons_right)
  show "str_valid p" if "str_valid s"
    using str_valid_pieces [of CR "[LF]" "split_crlf s"] that assms by (simp add: join_split_crlf)
qed

section \<open>Trimmed strings\<close>

lemma strip_prefixes_keeps:
  assumes "\<And>p t. p \<in> set ps \<Longrightarrow> P (p @ t) \<Longrightarrow> P t" and "P s"
  shows "P (strip_prefixes ps s)"
  using assms
proof (induction ps s rule: strip_prefixes.induct)
  case (1 ps s)
  show ?case
  proof (cases "find (\<lambda>p. p \<noteq> [] \<and> prefix p s) ps")
    case None
    with "1.prems" show ?thesis by (simp add: strip_prefixes.simps [of ps s])
  next
    case (Some p)
    then have "p \<in> set ps" "prefix p s" by (auto simp: find_Some_iff)
    then have "P (drop (length p) s)" using "1.prems" by (fastforce simp: prefix_def)
    with "1.IH" [OF Some "1.prems"(1)] Some show ?thesis
      by (simp add: strip_prefixes.simps [of ps s])
  qed
qed

lemma strip_prefixes_done:
  "p \<in> set ps \<Longrightarrow> p \<noteq> [] \<Longrightarrow> \<not> prefix p (strip_prefixes ps s)"
proof (induction ps s rule: strip_prefixes.induct)
  case (1 ps s)
  show ?case
  proof (cases "find (\<lambda>p. p \<noteq> [] \<and> prefix p s) ps")
    case None
    then have "strip_prefixes ps s = s" by (simp add: strip_prefixes.simps [of ps s])
    with None "1.prems" show ?thesis by (auto simp: find_None_iff)
  next
    case (Some q)
    then have "strip_prefixes ps s = strip_prefixes ps (drop (length q) s)"
      by (simp add: strip_prefixes.simps [of ps s])
    with "1.IH" [OF Some "1.prems"] show ?thesis by simp
  qed
qed

lemma white_space_valid: "p \<in> set white_space \<Longrightarrow> str_valid p"
proof -
  have "list_all str_valid white_space" by code_simp
  then show "p \<in> set white_space \<Longrightarrow> str_valid p" by (simp add: list_all_iff)
qed

lemma trim_start_suffix: "suffix (trim_start s) s"
  unfolding trim_start_def
  by (rule strip_prefixes_keeps [where P = "\<lambda>t. suffix t s"]) (auto simp: suffix_def)

lemma trim_end_prefix: "prefix (trim_end s) s"
proof -
  have "suffix (strip_prefixes (map rev white_space) (rev s)) (rev s)"
    by (rule strip_prefixes_keeps [where P = "\<lambda>t. suffix t (rev s)"]) (auto simp: suffix_def)
  then show ?thesis by (simp add: trim_end_def suffix_to_prefix)
qed

lemma trim_sublist: "sublist (trim s) s"
  unfolding trim_def
  using trim_end_prefix [of "trim_start s"] trim_start_suffix [of s]
  by (blast intro: prefix_imp_sublist suffix_imp_sublist sublist_order.order_trans)

lemma trim_valid: "str_valid s \<Longrightarrow> str_valid (trim s)"
proof -
  assume s: "str_valid s"
  have start: "str_valid (trim_start s)"
    unfolding trim_start_def
    by (rule strip_prefixes_keeps [where P = str_valid])
       (use s in \<open>auto intro: str_valid_rest white_space_valid\<close>)
  have "str_valid (rev (strip_prefixes (map rev white_space) (rev (trim_start s))))"
    by (rule strip_prefixes_keeps [where P = "\<lambda>r. str_valid (rev r)"])
       (use start in \<open>auto intro: str_valid_front white_space_valid\<close>)
  then show ?thesis by (simp add: trim_def trim_end_def)
qed

lemma trim_trim [simp]: "trim (trim s) = trim s"
proof -
  have ne: "p \<noteq> []" if "p \<in> set white_space" for p using white_space_not_visible [OF that] by simp
  have start: "\<not> prefix p (trim s)" if "p \<in> set white_space" for p
  proof
    assume "prefix p (trim s)"
    then have "prefix p (trim_start s)"
      using trim_end_prefix [of "trim_start s"] unfolding trim_def by (rule prefix_order.order_trans)
    then show False using strip_prefixes_done [OF that ne [OF that]] by (simp add: trim_start_def)
  qed
  have rear: "\<not> prefix q (rev (trim s))" if "q \<in> set (map rev white_space)" for q
    using strip_prefixes_done [OF that] ne that by (auto simp: trim_def trim_end_def)
  have "trim_start (trim s) = trim s"
    unfolding trim_start_def by (rule strip_prefixes_id) (use start in blast)
  moreover have "trim_end (trim s) = trim s"
    unfolding trim_end_def by (subst strip_prefixes_id) (use rear in auto)
  ultimately show ?thesis by (simp add: trim_def [of "trim s"])
qed

end
