(* ===== verification/Http_Types.thy ===== *)
theory Http_Types
  imports Http_Reader Str_Cuts
begin

text \<open>
  What a \<^verbatim>\<open>Request\<close> that \<^verbatim>\<open>read_request\<close> hands to the handler is guaranteed to look like,
  whatever the peer sent: the shape of each field, and that every string in it is one, also
  those its accessors return.
\<close>

definition well_formed_request :: "limits \<Rightarrow> request \<Rightarrow> bool" where
  "well_formed_request lim req \<longleftrightarrow>
     (\<forall>x \<in> {rq_method req, rq_target req, rq_version req}.
        str_valid x \<and> CHR '' '' \<notin> set x \<and> \<not> sublist crlf x) \<and>
     (\<forall>(name, val) \<in> set (rq_headers req).
        str_valid name \<and> CHR '':'' \<notin> set name \<and> \<not> sublist crlf name \<and> trim name = name \<and>
        str_valid val \<and> \<not> sublist crlf val \<and> trim val = val) \<and>
     length (rq_body req) \<le> unat (max_body_bytes lim)"

lemma sublist_keeps_out:
  "sublist p s \<Longrightarrow> c \<notin> set s \<Longrightarrow> c \<notin> set p"
  "sublist p s \<Longrightarrow> \<not> sublist crlf s \<Longrightarrow> \<not> sublist crlf p"
  using set_mono_sublist by (blast intro: sublist_order.order_trans)+

lemma parse_headers_types:
  assumes "parse_headers lines hs = Inr hs'"
    and "\<forall>line \<in> set lines. str_valid line \<and> \<not> sublist crlf line"
  shows "\<exists>more. hs' = hs @ more \<and>
    (\<forall>(name, val) \<in> set more.
       str_valid name \<and> CHR '':'' \<notin> set name \<and> \<not> sublist crlf name \<and> trim name = name \<and>
       str_valid val \<and> \<not> sublist crlf val \<and> trim val = val)"
  using assms
proof (induction lines hs rule: parse_headers.induct)
  case (2 line lines hs)
  show ?case
  proof (cases "line = []")
    case False
    with "2.prems" obtain name val where once: "split_once (CHR '':'') line = Some (name, val)"
      by (auto split: option.splits)
    with "2.prems"(1) False have rest: "parse_headers lines (hs @ [(trim name, trim val)]) = Inr hs'"
      by simp
    from split_once_Some [OF once] have line: "line = name @ CHR '':'' # val" "CHR '':'' \<notin> set name"
      by simp_all
    have v: "str_valid line" "\<not> sublist crlf line" using "2.prems"(2) by simp_all
    have "str_valid name" "str_valid val"
      using str_valid_split_at [of name "CHR '':''" val] v(1) line(1) by simp_all
    moreover have "sublist name line" "sublist val line"
      unfolding line(1) by (auto intro: prefix_imp_sublist suffix_imp_sublist simp: suffix_def)
    then have "\<not> sublist crlf name" "\<not> sublist crlf val"
      using sublist_keeps_out(2) v(2) by blast+
    ultimately have now: "str_valid (trim name) \<and> CHR '':'' \<notin> set (trim name) \<and>
        \<not> sublist crlf (trim name) \<and> str_valid (trim val) \<and> \<not> sublist crlf (trim val)"
      using line(2) trim_valid sublist_keeps_out [OF trim_sublist] by blast
    from "2.IH"(2) [OF False once refl rest] "2.prems"(2) obtain more where
      "hs' = (hs @ [(trim name, trim val)]) @ more"
      "\<forall>(name, val) \<in> set more.
         str_valid name \<and> CHR '':'' \<notin> set name \<and> \<not> sublist crlf name \<and> trim name = name \<and>
         str_valid val \<and> \<not> sublist crlf val \<and> trim val = val"
      by auto
    with now show ?thesis by (intro exI [of _ "(trim name, trim val) # more"]) simp
  qed (use "2.IH"(1) "2.prems" in simp)
qed simp

lemma parse_head_types:
  assumes "parse_head head = Inr (m, t, v, hs)" and "str_valid head"
  shows "\<forall>x \<in> {m, t, v}. str_valid x \<and> CHR '' '' \<notin> set x \<and> \<not> sublist crlf x"
    and "\<forall>(name, val) \<in> set hs.
       str_valid name \<and> CHR '':'' \<notin> set name \<and> \<not> sublist crlf name \<and> trim name = name \<and>
       str_valid val \<and> \<not> sublist crlf val \<and> trim val = val"
proof -
  obtain l ls where l: "split_crlf head = l # ls" by (cases "split_crlf head") auto
  have lines: "\<forall>line \<in> set (l # ls). str_valid line \<and> \<not> sublist crlf line"
    using split_crlf_pieces [of _ head] assms(2) l by auto
  obtain more where words: "split_char (CHR '' '') l = m # t # v # more"
    and hs: "parse_headers ls [] = Inr hs"
    using assms(1) l by (auto simp: parse_head_def split: list.splits sum.splits)
  show "\<forall>x \<in> {m, t, v}. str_valid x \<and> CHR '' '' \<notin> set x \<and> \<not> sublist crlf x"
  proof
    fix x assume "x \<in> {m, t, v}"
    then have x: "x \<in> set (split_char (CHR '' '') l)" using words by auto
    have l: "str_valid l" "\<not> sublist crlf l" using lines by simp_all
    have "str_valid x" using split_char_pieces(3) [OF x l(1)] by simp
    with split_char_pieces(1,2) [OF x] sublist_keeps_out(2) [OF _ l(2)]
    show "str_valid x \<and> CHR '' '' \<notin> set x \<and> \<not> sublist crlf x" by blast
  qed
  show "\<forall>(name, val) \<in> set hs.
       str_valid name \<and> CHR '':'' \<notin> set name \<and> \<not> sublist crlf name \<and> trim name = name \<and>
       str_valid val \<and> \<not> sublist crlf val \<and> trim val = val"
    using parse_headers_types [OF hs] lines by auto
qed

text \<open>A read that stores nothing in a buffer with room: the peer has closed.\<close>

definition peer_closed :: "('w, 'x) net_sys_scheme \<Rightarrow> tcp_stream \<Rightarrow> 'w \<Rightarrow> bool" where
  "peer_closed K s w' \<longleftrightarrow>
     (\<exists>chunk w chunk'. length chunk = READ_CHUNK \<and> tcp_read K s chunk w = (Inr 0, chunk', w'))"

lemma tcp_read_length: "tcp_read K s buf w = (r, buf', w') \<Longrightarrow> length buf' = length buf"
  by (auto simp: tcp_read_def recv_fd_def split: prod.splits)

lemma read_head_chunk:
  "read_head K s lim chunk buf w = (r, chunk', w') \<Longrightarrow> length chunk' = length chunk"
proof (induction K s lim chunk buf w rule: read_head.induct)
  case (1 K s lim chunk buf w)
  obtain x chunk1 w1 where rd: "tcp_read K s chunk w = (x, chunk1, w1)" by (metis prod.exhaust)
  from "1.IH" [OF _ _ rd [symmetric] _ refl] "1.prems" tcp_read_length [OF rd] rd show ?case
    by (subst (asm) (2) read_head.simps) (auto split: option.splits sum.splits if_splits)
qed

lemma read_body_stops:
  "read_body K s cl chunk body w = (Inr body', w') \<Longrightarrow> length chunk = READ_CHUNK \<Longrightarrow>
     unat cl \<le> length body' \<or> peer_closed K s w'"
proof (induction K s cl chunk body w rule: read_body.induct)
  case (1 K s cl chunk body w)
  obtain x chunk1 w1 where rd: "tcp_read K s chunk w = (x, chunk1, w1)" by (metis prod.exhaust)
  from "1.IH" [OF _ rd [symmetric] _ refl] "1.prems" tcp_read_length [OF rd] rd show ?case
    by (subst (asm) (2) read_body.simps)
       (auto simp: peer_closed_def split: option.splits sum.splits if_splits)
qed

lemma read_request_parses:
  assumes "read_request K s lim w = (Inr (Some req), w')"
  shows "\<exists>head. str_valid head \<and>
    parse_head head = Inr (rq_method req, rq_target req, rq_version req, rq_headers req) \<and>
    content_length (rq_headers req) \<le> max_body_bytes lim \<and>
    length (rq_body req) \<le> unat (content_length (rq_headers req)) \<and>
    (length (rq_body req) = unat (content_length (rq_headers req)) \<or> peer_closed K s w')"
proof -
  obtain res chunk w1 where rh: "read_head K s lim (replicate READ_CHUNK 0) [] w = (res, chunk, w1)"
    by (metis prod.exhaust)
  obtain p buf where res: "res = Inr (Some (p, buf))"
  proof (cases res)
    case (Inr found)
    with assms rh that show ?thesis by (cases found) (auto simp: read_request_def)
  qed (use assms rh in \<open>simp add: read_request_def\<close>)
  obtain bs where bs: "slice_to p buf = Some bs"
    using assms rh res by (cases "slice_to p buf") (simp_all add: read_request_def)
  obtain head where head: "from_utf8 bs = Some head"
    using assms rh res bs by (cases "from_utf8 bs") (simp_all add: read_request_def)
  obtain m t v hs where ph: "parse_head head = Inr (m, t, v, hs)"
  proof (cases "parse_head head")
    case (Inr x)
    with that show ?thesis by (cases x) auto
  qed (use assms rh res bs head in \<open>simp add: read_request_def\<close>)
  have ok: "\<not> max_body_bytes lim < content_length hs"
    using assms rh res bs head ph
    by (cases "max_body_bytes lim < content_length hs") (simp_all add: read_request_def Let_def)
  obtain body0 where body0: "slice_from (p + 4) buf = Some body0"
    using assms rh res bs head ph ok
    by (cases "slice_from (p + 4) buf") (simp_all add: read_request_def Let_def)
  obtain r w2 where rb: "read_body K s (content_length hs) chunk body0 w1 = (r, w2)"
    by (metis prod.exhaust)
  obtain body where body: "r = Inr body" "w' = w2"
    and req: "req = \<lparr>rq_method = m, rq_target = t, rq_version = v, rq_headers = hs,
      rq_body = take (unat (content_length hs)) body\<rparr>"
    using assms rh res bs head ph ok body0 rb
    by (cases r) (simp_all add: read_request_def Let_def)
  have "unat (content_length hs) \<le> length body \<or> peer_closed K s w'"
    using read_body_stops [OF rb [unfolded body(1)]] read_head_chunk [OF rh] body(2) by simp
  then show ?thesis using ph ok from_utf8_Some [OF head] by (auto simp: req not_less)
qed

text \<open>
  C3: a request that reaches a handler is well-formed, whatever the peer sent and however the
  system calls behaved. Its method, target and version are valid strings without a blank or a
  line break; its header names are valid, trimmed, and have no colon or line break; its header
  values are valid, trimmed and have no line break; the length it announces fits the limit, and
  its body is exactly that long unless the last read said that the peer had closed, when it may
  be shorter. So what \<^verbatim>\<open>path\<close>, \<^verbatim>\<open>query\<close> and \<^verbatim>\<open>header\<close> return of it are valid strings without a
  line break too.
\<close>

theorem requests_are_well_formed:
  assumes "read_request K s lim w = (Inr (Some req), w')"
  shows "well_formed_request lim req \<and>
    content_length (rq_headers req) \<le> max_body_bytes lim \<and>
    length (rq_body req) \<le> unat (content_length (rq_headers req)) \<and>
    (length (rq_body req) = unat (content_length (rq_headers req)) \<or> peer_closed K s w') \<and>
    str_valid (path req) \<and> \<not> sublist crlf (path req) \<and>
    (\<forall>x. query req = Some x \<or> request_header req name = Some x \<longrightarrow>
       str_valid x \<and> \<not> sublist crlf x)"
proof -
  obtain head where head: "str_valid head"
    "parse_head head = Inr (rq_method req, rq_target req, rq_version req, rq_headers req)"
    and body: "content_length (rq_headers req) \<le> max_body_bytes lim"
      "length (rq_body req) \<le> unat (content_length (rq_headers req))"
      "length (rq_body req) = unat (content_length (rq_headers req)) \<or> peer_closed K s w'"
    using read_request_parses [OF assms] by blast
  note types = parse_head_types [OF head(2,1)]
  have wf: "well_formed_request lim req"
    using types body(1,2) by (simp add: well_formed_request_def word_le_nat_alt)
  have target: "str_valid (rq_target req)" "\<not> sublist crlf (rq_target req)" using types(1) by simp_all
  have cut: "str_valid a \<and> str_valid b \<and> \<not> sublist crlf a \<and> \<not> sublist crlf b"
    if "split_once (CHR ''?'') (rq_target req) = Some (a, b)" for a b
  proof -
    have t: "rq_target req = a @ CHR ''?'' # b" using split_once_Some [OF that] by simp
    have "sublist a (rq_target req)" "sublist b (rq_target req)"
      unfolding t by (auto intro: prefix_imp_sublist suffix_imp_sublist simp: suffix_def)
    then show ?thesis
      using str_valid_split_at [of a "CHR ''?''" b] target t sublist_keeps_out(2) by auto
  qed
  have "str_valid x \<and> \<not> sublist crlf x" if "request_header req name = Some x" for x
  proof -
    from that obtain k where "(k, x) \<in> set (rq_headers req)"
      by (auto simp: request_header_def find_Some_iff) (metis nth_mem)
    with types(2) show ?thesis by auto
  qed
  then show ?thesis
    using wf body cut target by (auto simp: path_def query_def split: option.splits)
qed

theorem requests_are_well_formed_witness:
  "\<exists>w'. read_request (drip_net 3) \<lparr>stream_fd = 4\<rparr> sample_limits
     (render_request sample_request, []) = (Inr (Some sample_request), w') \<and>
   well_formed_request sample_limits sample_request"
proof -
  have c: "recv_contract (drip_net 3) \<lparr>stream_fd = 4\<rparr> fst" "recv_reliable (drip_net 3) \<lparr>stream_fd = 4\<rparr>"
    by (simp_all add: drip_recv_contract drip_reliable)
  have fits: "length (request_head sample_request) + 3 \<le> unat (max_header_bytes sample_limits)"
    by (simp add: sample_limit_values sample_head)
  have p: "fst (render_request sample_request, []) = render_request sample_request @ []" by simp
  obtain w' where run: "read_request (drip_net 3) \<lparr>stream_fd = 4\<rparr> sample_limits
      (render_request sample_request, []) = (Inr (Some sample_request), w')"
    using read_head_whole [OF c sample_wire fits p] read_request_from_head [OF c sample_wire]
    by blast
  from requests_are_well_formed [OF run] run show ?thesis by blast
qed

end
