(* ===== verification/Http_Reference.thy ===== *)
theory Http_Reference
  imports Http_Server
begin

text \<open>
  A reference for one connection: what the server answers is a function of the bytes the peer
  sends until it closes, whatever pieces the network makes of them. \<open>reference_request\<close> looks
  at all the bytes at once; the code reads them chunk by chunk into two buffers.
\<close>

datatype outcome = Silent | Refused | Accepted request

definition reference_request :: "limits \<Rightarrow> u8 list \<Rightarrow> outcome" where
  "reference_request lim bytes =
     (if bytes = [] then Silent
      else case find_double_crlf bytes of
        None \<Rightarrow> Refused
      | Some p \<Rightarrow>
          if unat (max_header_bytes lim) < p then Refused
          else (case from_utf8 (take p bytes) of
            None \<Rightarrow> Refused
          | Some head \<Rightarrow>
              (case parse_head head of
                 Inl _ \<Rightarrow> Refused
               | Inr (method, target, version, hs) \<Rightarrow>
                   if max_body_bytes lim < content_length hs then Refused
                   else Accepted \<lparr>rq_method = method, rq_target = target, rq_version = version,
                     rq_headers = hs, rq_body = take (unat (content_length hs)) (drop (p + 4) bytes)\<rparr>)))"

definition reference_answer :: "limits \<Rightarrow> (request \<Rightarrow> response) \<Rightarrow> u8 list \<Rightarrow> u8 list" where
  "reference_answer lim h bytes =
     (case reference_request lim bytes of
        Silent \<Rightarrow> []
      | Refused \<Rightarrow> encode bad_request
      | Accepted req \<Rightarrow> encode (h req))"

text \<open>
  The header limit is compared with what has been read, so a head that ends just beyond it is
  accepted or refused depending on the pieces; for all other heads the limit decides.
\<close>

definition head_decided :: "limits \<Rightarrow> u8 list \<Rightarrow> bool" where
  "head_decided lim bytes \<longleftrightarrow>
     (case find_double_crlf bytes of
        None \<Rightarrow> True
      | Some p \<Rightarrow> p + 3 \<le> unat (max_header_bytes lim) \<or>
          unat (max_header_bytes lim) + READ_CHUNK < p + 4)"

lemma reference_refused:
  assumes "head_decided lim bytes" and "reference_request lim bytes = Refused"
  shows "refused lim bytes"
  using assms
  by (auto simp: reference_request_def refused_def head_decided_def READ_CHUNK_def
      split: option.splits sum.splits if_splits)

lemma read_request_silent:
  assumes "recv_contract K s pend" and "recv_reliable K s" and "pend w = []"
  shows "\<exists>w'. read_request K s lim w = (Inr None, w')"
proof -
  let ?chunk = "replicate READ_CHUNK 0 :: u8 list"
  obtain n buf w1 where rd: "tcp_read K s ?chunk w = (Inr n, buf, w1)"
    using reliable_read [OF assms(2)] by blast
  have "unat n = length (take (unat n) buf)" "take (unat n) buf = []"
    using tcp_source.recv_some(2,3) [OF assms(1) rd] assms(3) by auto
  then have "n = 0" by (simp only: list.size unsigned_eq_0_iff)
  with rd show ?thesis by (simp add: read_request_def read_head.simps)
qed

lemma read_request_accepts:
  assumes c: "recv_contract K s pend" "recv_reliable K s"
    and found: "find_double_crlf (pend w) = Some p" "p + 3 \<le> unat (max_header_bytes lim)"
    and head: "from_utf8 (take p (pend w)) = Some head" "parse_head head = Inr (m, t, v, hs)"
    and fits: "\<not> max_body_bytes lim < content_length hs"
  shows "\<exists>w'. read_request K s lim w = (Inr (Some \<lparr>rq_method = m, rq_target = t, rq_version = v,
    rq_headers = hs, rq_body = take (unat (content_length hs)) (drop (p + 4) (pend w))\<rparr>), w')"
proof -
  let ?chunk = "replicate READ_CHUNK 0 :: u8 list" and ?cl = "content_length hs"
  have "?chunk \<noteq> []" by (simp add: READ_CHUNK_def)
  from read_head_finds [OF c(1) this c(2), where buf = "[]" and w = w and p = p and lim = lim] found obtain buf chunk w1 where
    rh: "read_head K s lim ?chunk [] w = (Inr (Some (p, buf)), chunk, w1)" by auto
  from read_head_start [OF c(1) rh] have h: "length chunk = READ_CHUNK" "pend w = buf @ pend w1"
    "find_double_crlf buf = Some p" by auto
  have p: "p + 4 \<le> length buf" using h(3) by (rule find_double_crlf_le)
  have ne: "chunk \<noteq> []" using h(1) by (auto simp: READ_CHUNK_def)
  obtain r w2 where rb: "read_body K s ?cl chunk (drop (p + 4) buf) w1 = (r, w2)"
    by (metis prod.exhaust)
  from read_body_contract [OF c(1) ne rb] c(2) obtain got where
    r: "r = Inr (drop (p + 4) buf @ got)" and got: "pend w1 = got @ pend w2"
    and enough: "unat ?cl \<le> length (drop (p + 4) buf @ got) \<or> pend w2 = []"
    by fastforce
  have "drop (p + 4) (pend w) = (drop (p + 4) buf @ got) @ pend w2" using h(2) got p by simp
  then have "take (unat ?cl) (drop (p + 4) (pend w)) = take (unat ?cl) (drop (p + 4) buf @ got)"
    using enough by auto
  moreover have "take p (pend w) = take p buf" using h(2) p by simp
  ultimately show ?thesis
    using rh p head fits rb r by (intro exI [of _ w2]) (simp add: read_request_def Let_def)
qed

lemma read_request_reference:
  assumes "recv_contract K s pend" and "recv_reliable K s" and "head_decided lim (pend w)"
  shows "\<exists>r w'. read_request K s lim w = (r, w') \<and>
    (case reference_request lim (pend w) of
       Silent \<Rightarrow> r = Inr None
     | Refused \<Rightarrow> (\<exists>e. r = Inl (Fail e))
     | Accepted req \<Rightarrow> r = Inr (Some req))"
proof (cases "reference_request lim (pend w)")
  case Silent
  then have "pend w = []"
    by (auto simp: reference_request_def split: if_splits option.splits sum.splits)
  with read_request_silent [OF assms(1,2)] Silent show ?thesis by auto
next
  case Refused
  with read_request_refused [OF assms(1), of lim w] reference_refused [OF assms(3)]
  show ?thesis by auto
next
  case (Accepted req)
  then obtain p head m t v hs where p: "find_double_crlf (pend w) = Some p"
    "\<not> unat (max_header_bytes lim) < p" "from_utf8 (take p (pend w)) = Some head"
    "parse_head head = Inr (m, t, v, hs)" "\<not> max_body_bytes lim < content_length hs"
    and req: "req = \<lparr>rq_method = m, rq_target = t, rq_version = v, rq_headers = hs,
      rq_body = take (unat (content_length hs)) (drop (p + 4) (pend w))\<rparr>"
    by (auto simp: reference_request_def split: if_splits option.splits sum.splits)
  have "p + 3 \<le> unat (max_header_bytes lim)"
    using assms(3) p(1,2) by (auto simp: head_decided_def READ_CHUNK_def)
  from read_request_accepts [OF assms(1,2) p(1) this p(3-5)] Accepted req show ?thesis by auto
qed

text \<open>
  C8: on a connection that keeps delivering and accepting bytes, what the server sends is the
  reference answer to the bytes the peer sent, however the network cuts them into pieces, for
  every byte sequence but those whose head ends beyond the header limit by less than one read
  chunk, where the cuts decide: nothing for nothing, the 400 for what is refused, and otherwise the
  handler's response to the request that stands at the front of the bytes, with a body cut
  short when the peer closed early. (The handler's response is taken not to depend on the state
  of the system.)
\<close>

theorem answer_is_a_function_of_the_bytes:
  assumes "conn_contract K s pend log" and "recv_reliable K s"
    and "head_decided lim (pend w)"
    and "\<And>req w. fst (handler req w) = h req" and "\<And>req w. log (snd (handler req w)) = log w"
    and sends: "\<And>buf w ret w'. net_send K (stream_fd s) buf 0 w = (ret, w') \<Longrightarrow>
      ret \<noteq> -1 \<and> (buf \<noteq> [] \<longrightarrow> ret \<noteq> 0)"
  shows "\<exists>w'. serve_connection K s handler lim w = Some (Inr (), w') \<and>
    log w' = log w @ reference_answer lim h (pend w)"
proof -
  have c: "recv_contract K s pend" using assms(1) by (simp add: conn_contract_def)
  obtain r w1 where rd: "read_request K s lim w = (r, w1)"
    and r: "case reference_request lim (pend w) of Silent \<Rightarrow> r = Inr None
      | Refused \<Rightarrow> (\<exists>e. r = Inl (Fail e)) | Accepted req \<Rightarrow> r = Inr (Some req)"
    using read_request_reference [OF c assms(2,3)] by blast
  have l1: "log w1 = log w"
    using read_request_keeps [of K s log lim w] conn_read_log [OF assms(1)] rd by (metis snd_conv)
  have sends': "\<forall>buf w ret w'. net_send K (stream_fd s) buf 0 w = (ret, w') \<longrightarrow>
      ret \<noteq> -1 \<and> (buf \<noteq> [] \<longrightarrow> ret \<noteq> 0)"
    using sends by blast
  note answered = response_is_sent [OF assms(1) sends']
  show ?thesis
  proof (cases "reference_request lim (pend w)")
    case Silent
    with r rd l1 conn_shutdown_log [OF assms(1), of ShutBoth w1] show ?thesis
      by (simp add: serve_connection_def reference_answer_def)
  next
    case Refused
    with r rd l1 answered [of bad_request w1] show ?thesis
      by (auto simp: serve_connection_def reference_answer_def)
  next
    case (Accepted req)
    obtain w2 where h: "handler req w1 = (h req, w2)" using assms(4) by (metis prod.collapse)
    then have "log w2 = log w" using assms(5) [of req w1] l1 by simp
    with h r rd Accepted answered [of "h req" w2] show ?thesis
      by (auto simp: serve_connection_def reference_answer_def)
  qed
qed

text \<open>The body announced is longer than what the peer sends before it closes.\<close>

definition short_request :: "u8 list" where
  "short_request = bytes_of (request_head sample_request) @ double_crlf @ [7]"

lemma sample_content_length: "content_length (rq_headers sample_request) = 2"
  using sample_wire by (simp add: wire_request_def sample_request_def)

lemma short_request_head:
  "find_double_crlf short_request = Some (length (request_head sample_request))"
  "take (length (request_head sample_request)) short_request = bytes_of (request_head sample_request)"
  "drop (length (request_head sample_request) + 4) short_request = [7]"
proof -
  have "CR \<notin> set (request_line sample_request)" by (simp add: request_line_def sample_request_def)
  moreover have "str_valid (request_line sample_request)"
    by (rule str_valid_ascii) (simp add: request_line_def sample_request_def)
  moreover have "\<forall>h \<in> set (rq_headers sample_request). sendable h"
    using sample_wire by (simp add: wire_request_def)
  ultimately show "find_double_crlf short_request = Some (length (request_head sample_request))"
    unfolding short_request_def request_head_def by (rule head_of_reads(1))
qed (simp_all add: short_request_def double_crlf_def)

lemma short_request_accepted:
  "reference_request sample_limits short_request = Accepted (sample_request\<lparr>rq_body := [7]\<rparr>)"
proof -
  have len: "\<not> unat (max_header_bytes sample_limits) < length (request_head sample_request)"
    by (simp add: sample_limit_values sample_head)
  have fits: "\<not> max_body_bytes sample_limits < 2"
    using sample_limit_values(2) by (simp add: word_less_nat_alt)
  show ?thesis
    using short_request_head wire_request_head(2,3) [OF sample_wire] len fits
    by (auto simp: reference_request_def sample_content_length)
qed

theorem answer_is_a_function_of_the_bytes_witness:
  "\<exists>w'. serve_connection (drip_net 3) \<lparr>stream_fd = 4\<rparr> echo_handler sample_limits
     (short_request, []) = Some (Inr (), w') \<and> snd w' = encode (with_body response_ok [7])"
proof -
  let ?h = "\<lambda>req. with_body response_ok (rq_body req)"
  have c: "conn_contract (drip_net 3) \<lparr>stream_fd = 4\<rparr> fst snd" "recv_reliable (drip_net 3) \<lparr>stream_fd = 4\<rparr>"
    by (simp_all add: drip_conn_contract drip_reliable)
  have "length (request_head sample_request) + 3 \<le> unat (max_header_bytes sample_limits)"
    by (simp add: sample_limit_values sample_head)
  then have d: "head_decided sample_limits (fst (short_request, [] :: u8 list))"
    by (simp add: head_decided_def short_request_head)
  have "\<exists>w'. serve_connection (drip_net 3) \<lparr>stream_fd = 4\<rparr> echo_handler sample_limits
      (short_request, []) = Some (Inr (), w') \<and>
    snd w' = snd (short_request, [] :: u8 list) @
      reference_answer sample_limits ?h (fst (short_request, [] :: u8 list))"
    by (rule answer_is_a_function_of_the_bytes [where pend = fst, OF c d])
      (simp_all add: echo_handler_def drip_sends)
  then show ?thesis by (simp add: reference_answer_def short_request_accepted)
qed

end
