(* ===== verification/Thread_Sharing.thy ===== *)
theory Thread_Sharing
  imports Thread
begin

text \<open>
  Several threads that share a mutex and a condition variable of \<^verbatim>\<open>crates/ps5/src/thread.rs\<close>:
  what the lock promises its users, and what the guards of the code make of it under every
  interleaving.
\<close>

section \<open>Mutual exclusion\<close>

text \<open>
  What a lock promises its users, over an observation \<open>owner\<close> of the system state: at most
  one owner, which only a lock that returns success or the owner's unlock changes. A blocked
  call returns, as a step, once the lock is free.
\<close>

locale lock_discipline =
  fixes obeys :: "'k \<Rightarrow> 'm \<Rightarrow> ('w \<Rightarrow> 't option) \<Rightarrow> bool"
    and acquire :: "'k \<Rightarrow> 't \<Rightarrow> 'm \<Rightarrow> 'w \<Rightarrow> 'g result \<times> 'w"
    and release :: "'k \<Rightarrow> 't \<Rightarrow> 'g \<Rightarrow> 'w \<Rightarrow> 'w"
    and guards :: "'g \<Rightarrow> 'm \<Rightarrow> bool"
  assumes acquire_ok: "obeys k m owner \<Longrightarrow> acquire k t m w = (Inr g, w') \<Longrightarrow>
      owner w = None \<and> owner w' = Some t \<and> guards g m"
    and acquire_err: "obeys k m owner \<Longrightarrow> acquire k t m w = (Inl e, w') \<Longrightarrow> owner w' = owner w"
    and release_ok: "obeys k m owner \<Longrightarrow> guards g m \<Longrightarrow> owner w = Some t \<Longrightarrow>
      owner (release k t g w) = None"
begin

text \<open>
  Taking the lock makes the caller its owner or changes nothing, and while it has an owner
  nobody takes it.
\<close>

lemma acquire_cases:
  assumes "obeys k m owner" and "acquire k t m w = (r, w')"
  shows "owner w' = (case r of Inr _ \<Rightarrow> Some t | Inl _ \<Rightarrow> owner w)"
    and "owner w = Some u \<Longrightarrow> \<exists>e. r = Inl e"
  using assms acquire_ok acquire_err by (cases r; fastforce)+

end

definition mutex_contract ::
  "('t \<Rightarrow> ('w, 'p) thread_sys) \<Rightarrow> pthread_slot \<Rightarrow> ('w \<Rightarrow> 't option) \<Rightarrow> bool" where
  "mutex_contract T i owner \<longleftrightarrow>
     (\<forall>t w rc w'. pm_lock (T t) i w = (rc, w') \<longrightarrow>
        (if rc = 0 then owner w = None \<and> owner w' = Some t else owner w' = owner w)) \<and>
     (\<forall>t w rc w'. pm_unlock (T t) i w = (rc, w') \<longrightarrow> owner w = Some t \<longrightarrow> owner w' = None)"

interpretation mutex_users: lock_discipline
  "\<lambda>(T :: 't \<Rightarrow> ('w, 'p) thread_sys) (m :: 'a mutex). mutex_contract T (mx_inner m)"
  "\<lambda>T t. mutex_lock (T t)" "\<lambda>T t. drop_guard (T t)"
  "\<lambda>g m. guard_inner g = mx_inner m"
proof unfold_locales
  fix T :: "'t \<Rightarrow> ('w, 'p) thread_sys" and m :: "'a mutex" and owner t w g w'
  assume c: "mutex_contract T (mx_inner m) owner"
  then have lock: "if rc = 0 then owner w = None \<and> owner w' = Some t else owner w' = owner w"
    if "pm_lock (T t) (mx_inner m) w = (rc, w')" for t w rc w'
    using that unfolding mutex_contract_def by blast
  show "owner w = None \<and> owner w' = Some t \<and> guard_inner g = mx_inner m"
    if "mutex_lock (T t) m w = (Inr g, w')"
    using that lock [of t w] by (auto simp: mutex_lock_def cvt_pthread_def split: prod.splits if_splits)
  show "owner w' = owner w" if "mutex_lock (T t) m w = (Inl e, w')" for e
    using that lock [of t w] by (auto simp: mutex_lock_def cvt_pthread_def split: prod.splits if_splits)
  show "owner (drop_guard (T t) g w) = None" if "guard_inner g = mx_inner m" "owner w = Some t"
    using c that unfolding mutex_contract_def drop_guard_def
    by (cases "pm_unlock (T t) (mx_inner m) w") force
qed

section \<open>Threads that share a mutex and a condition variable\<close>

text \<open>
  Inside a critical section a thread loads the data through its guard and later stores what it
  computed from it; \<open>wd_done\<close> lists those updates. A wait goes to sleep in one step, which gives
  the mutex back (\<open>sleeps\<close>, what \<^verbatim>\<open>pthread_cond_wait\<close> does to the system before it blocks), and
  returns in a later one; a wait that fails does so without having slept. Notifying takes no
  guard.
\<close>

datatype 'a section_phase = Outside | Inside guard | Loaded guard 'a | Waiting guard

definition inside :: "'a section_phase \<Rightarrow> bool" where
  "inside ph = (case ph of Inside _ \<Rightarrow> True | Loaded _ _ \<Rightarrow> True | _ \<Rightarrow> False)"

lemma inside_simps [simp]:
  "\<not> inside Outside" "inside (Inside g)" "inside (Loaded g x)" "\<not> inside (Waiting g)"
  by (simp_all add: inside_def)

record ('t, 'a, 'w) world =
  wd_mutex :: "'a mutex"
  wd_os :: 'w
  wd_phase :: "'t \<Rightarrow> 'a section_phase"
  wd_done :: "('a \<Rightarrow> 'a) list"

inductive lock_step ::
  "('t \<Rightarrow> ('w, 'p) thread_sys) \<Rightarrow> condvar \<Rightarrow> ('t \<Rightarrow> 'w \<Rightarrow> 'w \<Rightarrow> bool) \<Rightarrow> ('t, 'a, 'w) world \<Rightarrow> ('t, 'a, 'w) world \<Rightarrow> bool"
  for T cv sleeps
where
  enter: "wd_phase s t = Outside \<Longrightarrow> mutex_lock (T t) (wd_mutex s) (wd_os s) = (Inr g, w') \<Longrightarrow>
    lock_step T cv sleeps s (s\<lparr>wd_os := w', wd_phase := (wd_phase s)(t := Inside g)\<rparr>)"
| refused: "wd_phase s t = Outside \<Longrightarrow> mutex_lock (T t) (wd_mutex s) (wd_os s) = (Inl e, w') \<Longrightarrow>
    lock_step T cv sleeps s (s\<lparr>wd_os := w'\<rparr>)"
| load: "wd_phase s t = Inside g \<Longrightarrow>
    lock_step T cv sleeps s (s\<lparr>wd_phase := (wd_phase s)(t := Loaded g (guard_deref (wd_mutex s)))\<rparr>)"
| modify: "wd_phase s t = Loaded g x \<Longrightarrow>
    lock_step T cv sleeps s
      (s\<lparr>wd_mutex := guard_deref_mut (\<lambda>_. f x) (wd_mutex s), wd_phase := (wd_phase s)(t := Inside g),
         wd_done := wd_done s @ [f]\<rparr>)"
| leave: "wd_phase s t = Inside g \<Longrightarrow>
    lock_step T cv sleeps s (s\<lparr>wd_os := drop_guard (T t) g (wd_os s), wd_phase := (wd_phase s)(t := Outside)\<rparr>)"
| sleep: "wd_phase s t = Inside g \<Longrightarrow> sleeps t (wd_os s) w' \<Longrightarrow>
    lock_step T cv sleeps s (s\<lparr>wd_os := w', wd_phase := (wd_phase s)(t := Waiting g)\<rparr>)"
| wake: "wd_phase s t = Waiting g \<Longrightarrow> condvar_wait (T t) cv g (wd_os s) = (Inr g', w') \<Longrightarrow>
    lock_step T cv sleeps s (s\<lparr>wd_os := w', wd_phase := (wd_phase s)(t := Inside g')\<rparr>)"
| wait_fails: "wd_phase s t = Inside g \<Longrightarrow> condvar_wait (T t) cv g (wd_os s) = (Inl e, w') \<Longrightarrow>
    lock_step T cv sleeps s (s\<lparr>wd_os := w', wd_phase := (wd_phase s)(t := Outside)\<rparr>)"
| signal: "lock_step T cv sleeps s (s\<lparr>wd_os := notify_one (T t) cv (wd_os s)\<rparr>)"
| broadcast: "lock_step T cv sleeps s (s\<lparr>wd_os := notify_all (T t) cv (wd_os s)\<rparr>)"

text \<open>
  What a condition variable promises over the owner of the mutex: going to sleep gives it up,
  a wait that returns success has taken it again, a failing one leaves it as it was, and
  notifying leaves it alone.
\<close>

definition wait_contract ::
  "('t \<Rightarrow> ('w, 'p) thread_sys) \<Rightarrow> condvar \<Rightarrow> ('t \<Rightarrow> 'w \<Rightarrow> 'w \<Rightarrow> bool) \<Rightarrow> pthread_slot \<Rightarrow>
   ('w \<Rightarrow> 't option) \<Rightarrow> bool" where
  "wait_contract T cv sleeps i owner \<longleftrightarrow>
     (\<forall>t w w'. sleeps t w w' \<longrightarrow> owner w = Some t \<longrightarrow> owner w' = None) \<and>
     (\<forall>t w rc w'. pc_wait (T t) (cv_inner cv) i w = (rc, w') \<longrightarrow>
        (if rc = 0 then owner w = None \<and> owner w' = Some t else owner w' = owner w)) \<and>
     (\<forall>t w. owner (snd (pc_signal (T t) (cv_inner cv) w)) = owner w) \<and>
     (\<forall>t w. owner (snd (pc_broadcast (T t) (cv_inner cv) w)) = owner w)"

lemma wait_ok:
  assumes "wait_contract T cv sleeps (guard_inner g) owner"
    and "condvar_wait (T t) cv g w = (Inr g', w')"
  shows "owner w = None" and "owner w' = Some t" and "guard_inner g' = guard_inner g"
  using assms
  by (auto simp: condvar_wait_def Let_def wait_contract_def split: prod.splits if_splits)

lemma wait_error:
  assumes c: "wait_contract T cv sleeps (guard_inner g) owner" "mutex_contract T (guard_inner g) owner"
    and "condvar_wait (T t) cv g w = (Inl e, w')" and "owner w = Some t"
  shows "owner w' = None"
proof -
  obtain rc w1 where wt: "pc_wait (T t) (cv_inner cv) (guard_inner g) w = (rc, w1)" "rc \<noteq> 0"
    and w': "w' = drop_guard (T t) \<lparr>guard_inner = guard_inner g\<rparr> w1"
    using assms(3) by (auto simp: condvar_wait_def Let_def split: prod.splits if_splits)
  have "owner w1 = Some t" using c(1) wt assms(4) unfolding wait_contract_def by metis
  with c(2) show ?thesis unfolding w' drop_guard_def mutex_contract_def
    by (cases "pm_unlock (T t) (guard_inner g) w1") force
qed

definition world_inv :: "'a mutex \<Rightarrow> ('w \<Rightarrow> 't option) \<Rightarrow> ('t, 'a, 'w) world \<Rightarrow> bool" where
  "world_inv m owner s \<longleftrightarrow>
     mx_inner (wd_mutex s) = mx_inner m \<and>
     mx_data (wd_mutex s) = foldl (\<lambda>x f. f x) (mx_data m) (wd_done s) \<and>
     (\<forall>t. inside (wd_phase s t) \<longleftrightarrow> owner (wd_os s) = Some t) \<and>
     (\<forall>t g. wd_phase s t = Inside g \<or> wd_phase s t = Waiting g \<longrightarrow> guard_inner g = mx_inner m) \<and>
     (\<forall>t g x. wd_phase s t = Loaded g x \<longrightarrow>
        guard_inner g = mx_inner m \<and> x = mx_data (wd_mutex s))"

lemma world_inv_alone:
  assumes "world_inv m owner s" and "inside (wd_phase s t)"
  shows "owner (wd_os s) = Some t" and "u \<noteq> t \<Longrightarrow> \<not> inside (wd_phase s u)"
  using assms by (auto simp: world_inv_def)

lemma world_inv_free:
  assumes "world_inv m owner s" and "owner (wd_os s) = None"
  shows "\<not> inside (wd_phase s u)"
  using assms by (auto simp: world_inv_def)

text \<open>A thread comes in while nobody is, or leaves, with the data as it is.\<close>

lemma world_inv_enter:
  assumes "world_inv m owner s" and "owner (wd_os s) = None" and "owner w' = Some t"
    and "guard_inner g = mx_inner m"
  shows "world_inv m owner (s\<lparr>wd_os := w', wd_phase := (wd_phase s)(t := Inside g)\<rparr>)"
  using assms world_inv_free [OF assms(1,2)] by (auto simp: world_inv_def)

lemma world_inv_leave:
  assumes "world_inv m owner s" and "inside (wd_phase s t)" and "owner w' = None"
    and "ph = Outside \<or> (\<exists>g. ph = Waiting g \<and> guard_inner g = mx_inner m)"
  shows "world_inv m owner (s\<lparr>wd_os := w', wd_phase := (wd_phase s)(t := ph)\<rparr>)"
  using assms world_inv_alone(2) [OF assms(1,2)] by (auto simp: world_inv_def)

lemma world_inv_os:
  "world_inv m owner s \<Longrightarrow> owner w' = owner (wd_os s) \<Longrightarrow> world_inv m owner (s\<lparr>wd_os := w'\<rparr>)"
  by (auto simp: world_inv_def)

lemma lock_step_inv:
  assumes "lock_step T cv sleeps s s'" and c: "mutex_contract T (mx_inner m) owner"
    and v: "wait_contract T cv sleeps (mx_inner m) owner" and "world_inv m owner s"
  shows "world_inv m owner s'"
  using assms(1,4)
proof (induction rule: lock_step.induct)
  case (enter s t g w')
  then have c': "mutex_contract T (mx_inner (wd_mutex s)) owner" using c by (simp add: world_inv_def)
  from mutex_users.acquire_cases [OF c' enter.hyps(2)] mutex_users.acquire_ok [OF c' enter.hyps(2)]
    enter.prems
  show ?case by (intro world_inv_enter) (auto simp: world_inv_def)
next
  case (refused s t e w')
  then have c': "mutex_contract T (mx_inner (wd_mutex s)) owner" using c by (simp add: world_inv_def)
  from mutex_users.acquire_cases(1) [OF c' refused.hyps(2)] refused.prems show ?case
    by (intro world_inv_os) simp_all
next
  case (load s t g)
  then show ?case by (auto simp: world_inv_def guard_deref_def)
next
  case (modify s t g x f)
  have "inside (wd_phase s t)" using modify.hyps by simp
  from world_inv_alone [OF modify.prems this] modify show ?case
    by (auto simp: world_inv_def guard_deref_mut_def)
next
  case (leave s t g)
  have g: "guard_inner g = mx_inner m" and t: "inside (wd_phase s t)"
    using leave by (simp_all add: world_inv_def)
  have "owner (drop_guard (T t) g (wd_os s)) = None"
    using mutex_users.release_ok [OF c g world_inv_alone(1) [OF leave.prems t]] .
  with leave t show ?case by (intro world_inv_leave) simp_all
next
  case (sleep s t g w')
  then have "owner (wd_os s) = Some t" by (intro world_inv_alone(1)) simp_all
  with sleep v have "owner w' = None" by (auto simp: wait_contract_def)
  with sleep show ?case by (intro world_inv_leave) (auto simp: world_inv_def)
next
  case (wake s t g g' w')
  have g: "guard_inner g = mx_inner m" using wake by (simp add: world_inv_def)
  with v have "wait_contract T cv sleeps (guard_inner g) owner" by simp
  from wait_ok [OF this wake.hyps(2)] g wake.prems show ?case by (intro world_inv_enter) simp_all
next
  case (wait_fails s t g e w')
  have g: "guard_inner g = mx_inner m" using wait_fails by (simp add: world_inv_def)
  have "owner (wd_os s) = Some t" using wait_fails by (intro world_inv_alone(1)) simp_all
  with wait_error [of T cv sleeps g owner, OF _ _ wait_fails.hyps(2)] c v g
  have "owner w' = None" by simp
  with wait_fails show ?case by (intro world_inv_leave) simp_all
next
  case (signal s t)
  then show ?case using v by (intro world_inv_os) (simp_all add: wait_contract_def notify_one_def)
next
  case (broadcast s t)
  then show ?case using v by (intro world_inv_os) (simp_all add: wait_contract_def notify_all_def)
qed

text \<open>
  C17: no update made through guards is lost. However many threads lock the mutex, load the
  data, store what they computed from it, wait on the condition variable and are notified, at
  most one is inside at any time, the mutex is held exactly while one is (also after a wait
  that failed), and the data is always the result of applying the updates one after another.
\<close>

theorem guarded_updates_are_never_lost:
  assumes "mutex_contract T (mx_inner m) owner" and "wait_contract T cv sleeps (mx_inner m) owner"
    and "owner w = None"
    and "(lock_step T cv sleeps)\<^sup>*\<^sup>* \<lparr>wd_mutex = m, wd_os = w, wd_phase = (\<lambda>_. Outside), wd_done = []\<rparr> s"
  shows "guard_deref (wd_mutex s) = foldl (\<lambda>x f. f x) (guard_deref m) (wd_done s) \<and>
    (\<forall>t u. inside (wd_phase s t) \<and> inside (wd_phase s u) \<longrightarrow> t = u) \<and>
    (\<forall>t. inside (wd_phase s t) \<longleftrightarrow> owner (wd_os s) = Some t)"
proof -
  have "world_inv m owner s"
    by (rule steps_keep [OF assms(4) lock_step_inv [OF _ assms(1,2)]])
       (simp_all add: world_inv_def assms(3))
  then show ?thesis by (auto simp: world_inv_def guard_deref_def)
qed

text \<open>
  A system with one mutex, whose state is the owner. A lock of a held mutex is refused, and a
  wait ends when the mutex is free.
\<close>

definition one_lock :: "nat \<Rightarrow> (nat option, nat) thread_sys" where
  "one_lock t = calm_threads
     \<lparr>pm_lock := (\<lambda>_ w. if w = None then (0, Some t) else (11, w)),
      pm_unlock := (\<lambda>_ w. if w = Some t then (0, None) else (1, w)),
      pc_wait := (\<lambda>_ _ w. if w = None then (0, Some t) else (22, w))\<rparr>"

definition one_sleeps :: "nat \<Rightarrow> nat option \<Rightarrow> nat option \<Rightarrow> bool" where
  "one_sleeps t w w' \<longleftrightarrow> w = Some t \<and> w' = None"

theorem guarded_updates_are_never_lost_witness:
  "\<exists>s. (lock_step one_lock \<lparr>cv_inner = 24\<rparr> one_sleeps)\<^sup>*\<^sup>* \<lparr>wd_mutex = \<lparr>mx_inner = 16, mx_data = 40\<rparr>, wd_os = None,
       wd_phase = (\<lambda>_. Outside), wd_done = []\<rparr> s \<and>
     wd_phase s 7 = Inside \<lparr>guard_inner = 16\<rparr> \<and> guard_deref (wd_mutex s) = (42 :: nat)"
proof -
  let ?s0 = "\<lparr>wd_mutex = \<lparr>mx_inner = 16, mx_data = 40\<rparr>, wd_os = None,
    wd_phase = (\<lambda>_. Outside), wd_done = []\<rparr> :: (nat, nat, nat option) world"
  let ?g = "\<lparr>guard_inner = 16\<rparr>"
  let ?s1 = "?s0\<lparr>wd_os := Some 7, wd_phase := (wd_phase ?s0)(7 := Inside ?g)\<rparr>"
  let ?s2 = "?s1\<lparr>wd_phase := (wd_phase ?s1)(7 := Loaded ?g (guard_deref (wd_mutex ?s1)))\<rparr>"
  let ?s3 = "?s2\<lparr>wd_mutex := guard_deref_mut (\<lambda>_. (\<lambda>x. x + 2) 40) (wd_mutex ?s2),
    wd_phase := (wd_phase ?s2)(7 := Inside ?g), wd_done := wd_done ?s2 @ [\<lambda>x. x + 2]\<rparr>"
  have c: "mutex_contract one_lock (mx_inner \<lparr>mx_inner = 16, mx_data = 40 :: nat\<rparr>) (\<lambda>w. w)"
    by (auto simp: mutex_contract_def one_lock_def calm_threads_def split: if_splits)
  have v: "wait_contract one_lock \<lparr>cv_inner = 24\<rparr> one_sleeps
      (mx_inner \<lparr>mx_inner = 16, mx_data = 40 :: nat\<rparr>) (\<lambda>w. w)"
    by (auto simp: wait_contract_def one_lock_def one_sleeps_def calm_threads_def split: if_splits)
  have "lock_step one_lock \<lparr>cv_inner = 24\<rparr> one_sleeps ?s0 ?s1"
    by (rule lock_step.enter) (simp_all add: mutex_lock_def one_lock_def calm_threads_def)
  moreover have "lock_step one_lock \<lparr>cv_inner = 24\<rparr> one_sleeps ?s1 ?s2" by (rule lock_step.load) simp
  moreover have "lock_step one_lock \<lparr>cv_inner = 24\<rparr> one_sleeps ?s2 ?s3"
    by (rule lock_step.modify [of ?s2 7 ?g 40 one_lock _ _ "\<lambda>x. x + 2"]) (simp add: guard_deref_def)
  ultimately have r: "(lock_step one_lock \<lparr>cv_inner = 24\<rparr> one_sleeps)\<^sup>*\<^sup>* ?s0 ?s3"
    by (meson rtranclp.rtrancl_into_rtrancl rtranclp.rtrancl_refl)
  from guarded_updates_are_never_lost [OF c v _ r] r show ?thesis
    by (intro exI [of _ ?s3]) (simp add: guard_deref_def)
qed

end
