(* ===== verification/Fs.thy ===== *)
theory Fs
  imports Streams Fd_Ownership
begin

unbundle bit_operations_syntax

text \<open>
  \<^verbatim>\<open>crates/ps5/src/fs.rs\<close>: files, open options, metadata and directories over the POSIX file
  calls. The calls, the flag values and the layouts come from the generated bindings, so they
  are the fields of the parameter record \<open>fs_sys\<close>.
\<close>

section \<open>The system parameters of the file code\<close>

type_synonym dir_ptr = "64 word"    \<comment> \<open>a non-null \<^verbatim>\<open>DIR*\<close>\<close>

record stat_buf =
  st_size :: i64
  st_mode :: u16

record dirent =
  d_namlen :: usize        \<comment> \<open>as read by \<^verbatim>\<open>as usize\<close>\<close>
  d_name :: "u8 list"      \<comment> \<open>the fixed array of the layout\<close>

record 'w fs_sys = "'w sys_core" +
  fs_open :: "string \<Rightarrow> i32 \<Rightarrow> u32 \<Rightarrow> 'w \<Rightarrow> i32 \<times> 'w"
  fs_close :: "i32 \<Rightarrow> 'w \<Rightarrow> i32 \<times> 'w"
  fs_read_call :: "i32 \<Rightarrow> nat \<Rightarrow> 'w \<Rightarrow> (isize \<times> u8 list) \<times> 'w"
  fs_write_call :: "i32 \<Rightarrow> u8 list \<Rightarrow> 'w \<Rightarrow> isize \<times> 'w"
  fs_lseek :: "i32 \<Rightarrow> i64 \<Rightarrow> i32 \<Rightarrow> 'w \<Rightarrow> i64 \<times> 'w"
  fs_fsync :: "i32 \<Rightarrow> 'w \<Rightarrow> i32 \<times> 'w"
  fs_ftruncate :: "i32 \<Rightarrow> i64 \<Rightarrow> 'w \<Rightarrow> i32 \<times> 'w"
  fs_unlink :: "string \<Rightarrow> 'w \<Rightarrow> i32 \<times> 'w"
  fs_mkdir :: "string \<Rightarrow> u16 \<Rightarrow> 'w \<Rightarrow> i32 \<times> 'w"
  fs_rmdir :: "string \<Rightarrow> 'w \<Rightarrow> i32 \<times> 'w"
  fs_rename_call :: "string \<Rightarrow> string \<Rightarrow> 'w \<Rightarrow> i32 \<times> 'w"
  fs_access :: "string \<Rightarrow> i32 \<Rightarrow> 'w \<Rightarrow> i32 \<times> 'w"
  fs_stat :: "string \<Rightarrow> 'w \<Rightarrow> (i32 \<times> stat_buf) \<times> 'w"
  fs_opendir :: "string \<Rightarrow> 'w \<Rightarrow> dir_ptr option \<times> 'w"
  fs_readdir :: "dir_ptr \<Rightarrow> 'w \<Rightarrow> dirent option \<times> 'w"
  fs_closedir :: "dir_ptr \<Rightarrow> 'w \<Rightarrow> i32 \<times> 'w"
  O_RDONLY :: u32
  O_WRONLY :: u32
  O_RDWR :: u32
  O_APPEND :: u32
  O_CREAT :: u32
  O_EXCL :: u32
  O_TRUNC :: u32
  SEEK_SET :: u32
  SEEK_CUR :: u32
  SEEK_END :: u32
  S_IFMT :: u32
  S_IFDIR :: u32
  S_IFREG :: u32
  F_OK :: u32

definition DEFAULT_CREATE_MODE :: u16 where
  "DEFAULT_CREATE_MODE = 420"    \<comment> \<open>\<^verbatim>\<open>0o644\<close>\<close>

section \<open>Files\<close>

datatype seek_from = SeekStart u64 | SeekEnd i64 | SeekCurrent i64

record file_handle =
  file_fd :: i32

definition drop_file :: "('w, 'x) fs_sys_scheme \<Rightarrow> file_handle \<Rightarrow> 'w \<Rightarrow> 'w" where
  "drop_file K f w = snd (fs_close K (file_fd f) w)"

definition file_read ::
  "('w, 'x) fs_sys_scheme \<Rightarrow> file_handle \<Rightarrow> u8 list \<Rightarrow> 'w \<Rightarrow> usize result \<times> u8 list \<times> 'w" where
  "file_read K f buf w =
     (case fs_read_call K (file_fd f) (length buf) w of
        ((ret, stored), w1) \<Rightarrow>
          (case cvt_ssize K (ret, w1) of (r, w2) \<Rightarrow> (r, overwrite buf stored, w2)))"

definition file_write ::
  "('w, 'x) fs_sys_scheme \<Rightarrow> file_handle \<Rightarrow> u8 list \<Rightarrow> 'w \<Rightarrow> usize result \<times> 'w" where
  "file_write K f buf w = cvt_ssize K (fs_write_call K (file_fd f) buf w)"

text \<open>
  \<^verbatim>\<open>write_all\<close>: every error returns, and every other round shortens the buffer, so the loop
  ends whatever the calls return.
\<close>

function file_write_all ::
  "('w, 'x) fs_sys_scheme \<Rightarrow> file_handle \<Rightarrow> u8 list \<Rightarrow> 'w \<Rightarrow> (failure + unit) \<times> 'w" where
  "file_write_all K f buf w =
     (if buf = [] then (Inr (), w)
      else case file_write K f buf w of
        (Inl e, w1) \<Rightarrow> (Inl (Fail e), w1)
      | (Inr n, w1) \<Rightarrow>
          if n = 0
          then (Inl (Fail (InvalidInput ''write returned zero (failed to write whole buffer)'')), w1)
          else (case slice_from (unat n) buf of
                  None \<Rightarrow> (Inl Panic, w1)
                | Some rest \<Rightarrow> file_write_all K f rest w1))"
  by pat_completeness auto
termination
  by (relation "measure (\<lambda>(K, f, buf, w). length buf)") (auto simp: slice_from_Some unat_gt_0)

declare file_write_all.simps [simp del]

text \<open>
  \<^verbatim>\<open>read_to_end\<close>: the loop over an 8 KiB chunk buffer, and the number of bytes appended. The
  caller's vector is returned too, since it keeps what was read before an error.
\<close>

partial_function (option) file_read_loop ::
  "('w, 'x) fs_sys_scheme \<Rightarrow> file_handle \<Rightarrow> u8 list \<Rightarrow> u8 list \<Rightarrow> 'w \<Rightarrow>
   ((failure + unit) \<times> u8 list \<times> 'w) option" where
  "file_read_loop K f chunk buf w =
     (case file_read K f chunk w of
        (Inl e, chunk', w1) \<Rightarrow> Some (Inl (Fail e), buf, w1)
      | (Inr n, chunk', w1) \<Rightarrow>
          if n = 0 then Some (Inr (), buf, w1)
          else (case slice_to (unat n) chunk' of
                  None \<Rightarrow> Some (Inl Panic, buf, w1)
                | Some got \<Rightarrow> file_read_loop K f chunk' (buf @ got) w1))"

definition file_read_to_end ::
  "('w, 'x) fs_sys_scheme \<Rightarrow> file_handle \<Rightarrow> u8 list \<Rightarrow> 'w \<Rightarrow>
   ((failure + nat) \<times> u8 list \<times> 'w) option" where
  "file_read_to_end K f buf w =
     (case file_read_loop K f (replicate 8192 0) buf w of
        None \<Rightarrow> None
      | Some (Inl e, buf', w1) \<Rightarrow> Some (Inl e, buf', w1)
      | Some (Inr _, buf', w1) \<Rightarrow> Some (Inr (length buf' - length buf), buf', w1))"

definition file_seek ::
  "('w, 'x) fs_sys_scheme \<Rightarrow> file_handle \<Rightarrow> seek_from \<Rightarrow> 'w \<Rightarrow> u64 result \<times> 'w" where
  "file_seek K f pos w =
     (case (case pos of
              SeekStart n \<Rightarrow> (n, SEEK_SET K)
            | SeekEnd n \<Rightarrow> (n, SEEK_END K)
            | SeekCurrent n \<Rightarrow> (n, SEEK_CUR K)) of
        (off, whence) \<Rightarrow>
          (case fs_lseek K (file_fd f) off whence w of
             (ret, w1) \<Rightarrow> if ret = -1 then (Inl (last_os K w1), w1) else (Inr ret, w1)))"

text \<open>\<^verbatim>\<open>cvt_i32(..).map(|_| ())\<close>, the result of the calls that return only a status.\<close>

definition cvt_unit :: "('w, 'x) sys_core_scheme \<Rightarrow> i32 \<times> 'w \<Rightarrow> unit result \<times> 'w" where
  "cvt_unit K rw = and_then (cvt_i32 K rw) (\<lambda>_ w1. (Inr (), w1))"

definition file_sync_all :: "('w, 'x) fs_sys_scheme \<Rightarrow> file_handle \<Rightarrow> 'w \<Rightarrow> unit result \<times> 'w" where
  "file_sync_all K f w = cvt_unit K (fs_fsync K (file_fd f) w)"

definition file_set_len :: "('w, 'x) fs_sys_scheme \<Rightarrow> file_handle \<Rightarrow> u64 \<Rightarrow> 'w \<Rightarrow> unit result \<times> 'w" where
  "file_set_len K f bytes w = cvt_unit K (fs_ftruncate K (file_fd f) bytes w)"

definition file_from_raw_fd :: "i32 \<Rightarrow> file_handle" where
  "file_from_raw_fd fd = \<lparr>file_fd = fd\<rparr>"

text \<open>\<^verbatim>\<open>into_raw_fd\<close> forgets the file, so its destructor never runs.\<close>

definition file_as_raw_fd :: "file_handle \<Rightarrow> i32" where
  "file_as_raw_fd f = file_fd f"

definition file_into_raw_fd :: "file_handle \<Rightarrow> i32" where
  "file_into_raw_fd f = file_fd f"

section \<open>Open options\<close>

record open_options =
  oo_read :: bool
  oo_write :: bool
  oo_append :: bool
  oo_truncate :: bool
  oo_create :: bool
  oo_create_new :: bool

definition options_new :: open_options where
  "options_new =
     \<lparr>oo_read = False, oo_write = False, oo_append = False, oo_truncate = False,
      oo_create = False, oo_create_new = False\<rparr>"

definition set_read :: "bool \<Rightarrow> open_options \<Rightarrow> open_options" where
  "set_read b o' = o'\<lparr>oo_read := b\<rparr>"

definition set_write :: "bool \<Rightarrow> open_options \<Rightarrow> open_options" where
  "set_write b o' = o'\<lparr>oo_write := b\<rparr>"

definition set_append :: "bool \<Rightarrow> open_options \<Rightarrow> open_options" where
  "set_append b o' = o'\<lparr>oo_append := b\<rparr>"

definition set_truncate :: "bool \<Rightarrow> open_options \<Rightarrow> open_options" where
  "set_truncate b o' = o'\<lparr>oo_truncate := b\<rparr>"

definition set_create :: "bool \<Rightarrow> open_options \<Rightarrow> open_options" where
  "set_create b o' = o'\<lparr>oo_create := b\<rparr>"

definition set_create_new :: "bool \<Rightarrow> open_options \<Rightarrow> open_options" where
  "set_create_new b o' = o'\<lparr>oo_create_new := b\<rparr>"

definition access_flags :: "('w, 'x) fs_sys_scheme \<Rightarrow> open_options \<Rightarrow> i32 result" where
  "access_flags K o' =
     (case (oo_read o', oo_write o' \<or> oo_append o') of
        (True, False) \<Rightarrow> Inr (O_RDONLY K)
      | (False, True) \<Rightarrow> Inr (O_WRONLY K)
      | (True, True) \<Rightarrow> Inr (O_RDWR K)
      | (False, False) \<Rightarrow>
          Inl (InvalidInput ''OpenOptions: no access mode set (need read and/or write)''))"

text \<open>The flags of \<^verbatim>\<open>open\<close> beyond the access mode, added one after the other.\<close>

definition add_flags :: "('w, 'x) fs_sys_scheme \<Rightarrow> open_options \<Rightarrow> i32 \<Rightarrow> i32" where
  "add_flags K o' flags =
     (let flags = (if oo_append o' then flags OR O_APPEND K else flags) in
      if oo_create_new o' then flags OR (O_CREAT K OR O_EXCL K)
      else
        (let flags = (if oo_create o' then flags OR O_CREAT K else flags) in
         if oo_truncate o' then flags OR O_TRUNC K else flags))"

definition options_open ::
  "('w, 'x) fs_sys_scheme \<Rightarrow> open_options \<Rightarrow> string \<Rightarrow> 'w \<Rightarrow> file_handle result \<times> 'w" where
  "options_open K o' path w =
     and_then (access_flags K o', w) (\<lambda>flags w.
       let flags = add_flags K o' flags in
       and_then (cstr path, w) (\<lambda>c_path w.
         let mode = ucast DEFAULT_CREATE_MODE in
         and_then (cvt_i32 K (fs_open K c_path flags mode w)) (\<lambda>fd w1.
           (Inr \<lparr>file_fd = fd\<rparr>, w1))))"

definition file_options :: open_options where
  "file_options = options_new"

definition file_open :: "('w, 'x) fs_sys_scheme \<Rightarrow> string \<Rightarrow> 'w \<Rightarrow> file_handle result \<times> 'w" where
  "file_open K path w = options_open K (set_read True options_new) path w"

definition file_create :: "('w, 'x) fs_sys_scheme \<Rightarrow> string \<Rightarrow> 'w \<Rightarrow> file_handle result \<times> 'w" where
  "file_create K path w =
     options_open K (set_truncate True (set_create True (set_write True options_new))) path w"

section \<open>Metadata\<close>

record metadata =
  md_stat :: stat_buf

definition metadata_len :: "metadata \<Rightarrow> u64" where
  "metadata_len m = st_size (md_stat m)"

definition metadata_is_empty :: "metadata \<Rightarrow> bool" where
  "metadata_is_empty m \<longleftrightarrow> metadata_len m = 0"

definition metadata_is_dir :: "('w, 'x) fs_sys_scheme \<Rightarrow> metadata \<Rightarrow> bool" where
  "metadata_is_dir K m \<longleftrightarrow> ucast (st_mode (md_stat m)) AND S_IFMT K = S_IFDIR K"

definition metadata_is_file :: "('w, 'x) fs_sys_scheme \<Rightarrow> metadata \<Rightarrow> bool" where
  "metadata_is_file K m \<longleftrightarrow> ucast (st_mode (md_stat m)) AND S_IFMT K = S_IFREG K"

definition metadata_mode :: "metadata \<Rightarrow> u32" where
  "metadata_mode m = ucast (st_mode (md_stat m))"

definition fs_metadata :: "('w, 'x) fs_sys_scheme \<Rightarrow> string \<Rightarrow> 'w \<Rightarrow> metadata result \<times> 'w" where
  "fs_metadata K path w =
     and_then (cstr path, w) (\<lambda>c_path w.
       case fs_stat K c_path w of
         ((ret, st), w1) \<Rightarrow>
           and_then (cvt_i32 K (ret, w1)) (\<lambda>_ w2. (Inr \<lparr>md_stat = st\<rparr>, w2)))"

section \<open>Directories\<close>

record dir_entry =
  entry_name :: string

definition file_name :: "dir_entry \<Rightarrow> string" where
  "file_name d = entry_name d"

record dir_reader =
  reader_dir :: dir_ptr

text \<open>
  The name in a directory entry: at most the announced length and the array's, up to the
  first NUL, with the ill-formed parts replaced.
\<close>

definition dirent_name :: "dirent \<Rightarrow> string" where
  "dirent_name ent =
     (let bytes = take (min (unat (d_namlen ent)) (length (d_name ent))) (d_name ent);
          name = takeWhile (\<lambda>b. b \<noteq> 0) bytes
      in str_of (utf8_lossy name))"

text \<open>\<^verbatim>\<open>next\<close>: it goes round as long as the directory yields the two dot entries.\<close>

partial_function (option) read_dir_next ::
  "('w, 'x) fs_sys_scheme \<Rightarrow> dir_reader \<Rightarrow> 'w \<Rightarrow> (dir_entry result option \<times> 'w) option" where
  "read_dir_next K d w =
     (case fs_readdir K (reader_dir d) (sys_set_errno K 0 w) of
        (None, w1) \<Rightarrow>
          (let errno = errno_code (errno_last K w1) in
           if errno = 0 then Some (None, w1) else Some (Some (Inl (Os (Errno errno))), w1))
      | (Some ent, w1) \<Rightarrow>
          (let name = dirent_name ent in
           if name = ''.'' \<or> name = ''..'' then read_dir_next K d w1
           else Some (Some (Inr \<lparr>entry_name = name\<rparr>), w1)))"

definition drop_dir_reader :: "('w, 'x) fs_sys_scheme \<Rightarrow> dir_reader \<Rightarrow> 'w \<Rightarrow> 'w" where
  "drop_dir_reader K d w = snd (fs_closedir K (reader_dir d) w)"

definition fs_read_dir :: "('w, 'x) fs_sys_scheme \<Rightarrow> string \<Rightarrow> 'w \<Rightarrow> dir_reader result \<times> 'w" where
  "fs_read_dir K path w =
     and_then (cstr path, w) (\<lambda>c_path w.
       and_then (cvt_ptr K (fs_opendir K c_path w)) (\<lambda>dir w1. (Inr \<lparr>reader_dir = dir\<rparr>, w1)))"

section \<open>Whole-path operations\<close>

text \<open>
  A panic aborts the process (\<^verbatim>\<open>panic = "abort"\<close> in the release profile), so it leaves the file
  to the system; every other end drops it.
\<close>

definition fs_read ::
  "('w, 'x) fs_sys_scheme \<Rightarrow> string \<Rightarrow> 'w \<Rightarrow> ((failure + u8 list) \<times> 'w) option" where
  "fs_read K path w =
     (case file_open K path w of
        (Inl e, w1) \<Rightarrow> Some (Inl (Fail e), w1)
      | (Inr f, w1) \<Rightarrow>
        (case file_read_to_end K f [] w1 of
           None \<Rightarrow> None
         | Some (Inl Panic, buf, w2) \<Rightarrow> Some (Inl Panic, w2)
         | Some (Inl (Fail e), buf, w2) \<Rightarrow> Some (Inl (Fail e), drop_file K f w2)
         | Some (Inr _, buf, w2) \<Rightarrow> Some (Inr buf, drop_file K f w2)))"

definition fs_read_to_string ::
  "('w, 'x) fs_sys_scheme \<Rightarrow> string \<Rightarrow> 'w \<Rightarrow> ((failure + string) \<times> 'w) option" where
  "fs_read_to_string K path w =
     (case fs_read K path w of
        None \<Rightarrow> None
      | Some (Inl e, w1) \<Rightarrow> Some (Inl e, w1)
      | Some (Inr bytes, w1) \<Rightarrow>
        (case from_utf8 bytes of
           None \<Rightarrow> Some (Inl (Fail (InvalidInput ''file contents are not valid UTF-8'')), w1)
         | Some s \<Rightarrow> Some (Inr s, w1)))"

definition fs_write ::
  "('w, 'x) fs_sys_scheme \<Rightarrow> string \<Rightarrow> u8 list \<Rightarrow> 'w \<Rightarrow> (failure + unit) \<times> 'w" where
  "fs_write K path contents w =
     (case file_create K path w of
        (Inl e, w1) \<Rightarrow> (Inl (Fail e), w1)
      | (Inr f, w1) \<Rightarrow>
        (case file_write_all K f contents w1 of
           (Inl Panic, w2) \<Rightarrow> (Inl Panic, w2)
         | (r, w2) \<Rightarrow> (r, drop_file K f w2)))"

definition fs_remove_file :: "('w, 'x) fs_sys_scheme \<Rightarrow> string \<Rightarrow> 'w \<Rightarrow> unit result \<times> 'w" where
  "fs_remove_file K path w =
     and_then (cstr path, w) (\<lambda>c_path w. cvt_unit K (fs_unlink K c_path w))"

definition fs_create_dir :: "('w, 'x) fs_sys_scheme \<Rightarrow> string \<Rightarrow> 'w \<Rightarrow> unit result \<times> 'w" where
  "fs_create_dir K path w =
     and_then (cstr path, w) (\<lambda>c_path w. cvt_unit K (fs_mkdir K c_path 493 w))"

definition fs_remove_dir :: "('w, 'x) fs_sys_scheme \<Rightarrow> string \<Rightarrow> 'w \<Rightarrow> unit result \<times> 'w" where
  "fs_remove_dir K path w =
     and_then (cstr path, w) (\<lambda>c_path w. cvt_unit K (fs_rmdir K c_path w))"

definition fs_rename :: "('w, 'x) fs_sys_scheme \<Rightarrow> string \<Rightarrow> string \<Rightarrow> 'w \<Rightarrow> unit result \<times> 'w" where
  "fs_rename K from_path to_path w =
     and_then (cstr from_path, w) (\<lambda>c_from w.
       and_then (cstr to_path, w) (\<lambda>c_to w. cvt_unit K (fs_rename_call K c_from c_to w)))"

definition fs_exists :: "('w, 'x) fs_sys_scheme \<Rightarrow> string \<Rightarrow> 'w \<Rightarrow> bool \<times> 'w" where
  "fs_exists K path w =
     (case cstr path of
        Inl _ \<Rightarrow> (False, w)
      | Inr c_path \<Rightarrow> (case fs_access K c_path (F_OK K) w of (r, w1) \<Rightarrow> (r = 0, w1)))"

section \<open>What the file code expects of the system\<close>

text \<open>
  The documented behaviour of \<^verbatim>\<open>write\<close> and \<^verbatim>\<open>read\<close> on one open file, told through an observation
  of the system state: what has been written so far (\<open>log\<close>), and what is left to read
  (\<open>pend\<close>), of which a \<^verbatim>\<open>read\<close> stores a part, nothing only at the end.
\<close>

definition file_write_law ::
  "('w, 'x) fs_sys_scheme \<Rightarrow> file_handle \<Rightarrow> ('w \<Rightarrow> u8 list) \<Rightarrow> bool" where
  "file_write_law K f log \<longleftrightarrow>
     (\<forall>buf w ret w'. fs_write_call K (file_fd f) buf w = (ret, w') \<longrightarrow>
        (if ret = -1 then log w' = log w
         else unat ret \<le> length buf \<and> log w' = log w @ take (unat ret) buf))"

definition file_read_law ::
  "('w, 'x) fs_sys_scheme \<Rightarrow> file_handle \<Rightarrow> ('w \<Rightarrow> u8 list) \<Rightarrow> bool" where
  "file_read_law K f pend \<longleftrightarrow>
     (\<forall>len w ret stored w'. fs_read_call K (file_fd f) len w = ((ret, stored), w') \<longrightarrow>
        (if ret = -1 then pend w' = pend w
         else unat ret = length stored \<and> length stored \<le> len \<and> pend w = stored @ pend w' \<and>
              (stored = [] \<longrightarrow> len = 0 \<or> pend w = [])))"

lemma file_write_call:
  "file_write K f buf w = (Inr n, w') \<longleftrightarrow> fs_write_call K (file_fd f) buf w = (n, w') \<and> n \<noteq> -1"
  "file_write K f buf w = (Inl e, w') \<longleftrightarrow>
     fs_write_call K (file_fd f) buf w = (-1, w') \<and> e = last_os K w'"
  by (auto simp: file_write_def cvt_ssize_def split: prod.splits)

lemma file_read_call:
  "file_read K f buf w = (Inr n, buf', w') \<longleftrightarrow>
     (\<exists>stored. fs_read_call K (file_fd f) (length buf) w = ((n, stored), w') \<and> n \<noteq> -1 \<and>
        buf' = overwrite buf stored)"
  "file_read K f buf w = (Inl e, buf', w') \<longleftrightarrow>
     (\<exists>stored. fs_read_call K (file_fd f) (length buf) w = ((-1, stored), w') \<and> e = last_os K w' \<and>
        buf' = overwrite buf stored)"
  by (auto simp: file_read_def cvt_ssize_def split: prod.splits if_splits)

interpretation file_sink: byte_sink file_write file_write_law
proof unfold_locales
  fix k :: "('w, 'x) fs_sys_scheme" and h log buf w n e w'
  assume c: "file_write_law k h log"
  show "unat n \<le> length buf \<and> log w' = log w @ take (unat n) buf"
    if "file_write k h buf w = (Inr n, w')"
    using that c by (fastforce simp: file_write_law_def file_write_call)
  show "log w' = log w" if "file_write k h buf w = (Inl e, w')"
    using that c by (fastforce simp: file_write_law_def file_write_call)
qed

interpretation file_source: byte_source file_read file_read_law
proof unfold_locales
  fix k :: "('w, 'x) fs_sys_scheme" and h buf w r buf' w'
  show "length buf' = length buf" if "file_read k h buf w = (r, buf', w')"
    using that by (cases r) (auto simp: file_read_call)
  fix pend n
  assume c: "file_read_law k h pend"
  show "unat n \<le> length buf \<and> pend w = take (unat n) buf' @ pend w'"
    if "file_read k h buf w = (Inr n, buf', w')"
    using that c by (fastforce simp: file_read_law_def file_read_call)
  show "pend w = []" if "file_read k h buf w = (Inr 0, buf', w')" "buf \<noteq> []"
    using that c by (fastforce simp: file_read_law_def file_read_call)
  show "pend w' = pend w" if "file_read k h buf w = (Inl e, buf', w')" for e
    using that c by (fastforce simp: file_read_law_def file_read_call)
qed

text \<open>The two loops are the reference loops of theory \<open>Streams\<close>.\<close>

lemma file_write_all_pump:
  "pump (file_write K f)
     (\<lambda>_. InvalidInput ''write returned zero (failed to write whole buffer)'') (\<lambda>_. False) buf w =
   Some (file_write_all K f buf w)"
proof (induction K f buf w rule: file_write_all.induct)
  case (1 K f buf w)
  obtain r w1 where w: "file_write K f buf w = (r, w1)" by (metis prod.exhaust)
  from "1.IH" [OF _ w [symmetric]] w show ?case
    by (cases r) (auto simp: pump.simps [of _ _ _ buf] file_write_all.simps [of K f buf]
        split: option.splits)
qed

lemma file_read_loop_drain: "file_read_loop K f chunk buf w = drain (file_read K f) chunk buf w"
proof -
  let ?drain = "drain (file_read K f) chunk buf w"
  have "?drain = Some y" if "file_read_loop K f chunk buf w = Some y" for y
    by (rule file_read_loop.raw_induct [where P = "\<lambda>K f chunk buf w y.
          drain (file_read K f) chunk buf w = Some y", OF _ that])
       (subst drain.simps, auto split: if_splits prod.splits sum.splits option.splits)
  moreover have "file_read_loop K f chunk buf w = Some y" if "?drain = Some y" for y
  proof -
    have "file_read K f = file_read K f \<longrightarrow> file_read_loop K f chunk buf w = Some y"
      by (rule drain.raw_induct [where P = "\<lambda>rd chunk buf w y.
            rd = file_read K f \<longrightarrow> file_read_loop K f chunk buf w = Some y", OF _ that])
         (subst file_read_loop.simps, auto split: if_splits prod.splits sum.splits option.splits)
    then show ?thesis by simp
  qed
  ultimately show ?thesis by (cases "file_read_loop K f chunk buf w"; cases ?drain) auto
qed

section \<open>Files written and read\<close>

text \<open>
  The documented behaviour of the file calls on one path, which names a regular file or nothing
  and is not changed by anybody else meanwhile: the contents of the file, if it exists, and for
  a descriptor that is open on it without \<^verbatim>\<open>O_APPEND\<close> (\<open>plain\<close>) the bytes before and after its
  offset, which together are the contents. Opening for reading, and opening with exactly
  \<^verbatim>\<open>O_WRONLY\<close>, \<^verbatim>\<open>O_CREAT\<close> and \<^verbatim>\<open>O_TRUNC\<close>, start at the beginning, the latter of nothing. On a
  plain descriptor a \<^verbatim>\<open>write\<close> that succeeds moves the offset past a prefix of the buffer, which
  replaces what was there, and a \<^verbatim>\<open>read\<close> that succeeds moves it past the bytes it stores, none
  only at the end. Nothing is said of other descriptors, other flags or calls that fail.
\<close>

record 'w file_view =
  content :: "'w \<Rightarrow> u8 list option"
  plain :: "i32 \<Rightarrow> 'w \<Rightarrow> bool"
  before :: "i32 \<Rightarrow> 'w \<Rightarrow> u8 list"
  after :: "i32 \<Rightarrow> 'w \<Rightarrow> u8 list"

definition file_contract :: "('w, 'x) fs_sys_scheme \<Rightarrow> string \<Rightarrow> 'w file_view \<Rightarrow> bool" where
  "file_contract K path V \<longleftrightarrow>
     (\<forall>m w fd w'. fs_open K path (O_WRONLY K OR O_CREAT K OR O_TRUNC K) m w = (fd, w') \<longrightarrow> fd \<noteq> -1 \<longrightarrow>
        plain V fd w' \<and> before V fd w' = [] \<and> after V fd w' = []) \<and>
     (\<forall>m w fd w'. fs_open K path (O_RDONLY K) m w = (fd, w') \<longrightarrow> fd \<noteq> -1 \<longrightarrow>
        plain V fd w' \<and> content V w = Some (after V fd w')) \<and>
     (\<forall>fd buf w n w'. fs_write_call K fd buf w = (n, w') \<longrightarrow> n \<noteq> -1 \<longrightarrow> plain V fd w \<longrightarrow>
        plain V fd w' \<and> unat n \<le> length buf \<and> before V fd w' = before V fd w @ take (unat n) buf \<and>
        after V fd w' = drop (unat n) (after V fd w)) \<and>
     (\<forall>fd len w n got w'. fs_read_call K fd len w = ((n, got), w') \<longrightarrow> n \<noteq> -1 \<longrightarrow> plain V fd w \<longrightarrow>
        plain V fd w' \<and> unat n = length got \<and> length got \<le> len \<and> after V fd w = got @ after V fd w' \<and>
        (got = [] \<longrightarrow> len = 0 \<or> after V fd w = [])) \<and>
     (\<forall>fd w. plain V fd w \<longrightarrow> content V w = Some (before V fd w @ after V fd w)) \<and>
     (\<forall>fd w. plain V fd w \<longrightarrow> content V (snd (fs_close K fd w)) = content V w)"

lemma file_contract_parts:
  assumes "file_contract K path V"
  shows "fs_open K path (O_WRONLY K OR O_CREAT K OR O_TRUNC K) m w = (fd, w') \<Longrightarrow> fd \<noteq> -1 \<Longrightarrow>
      plain V fd w' \<and> before V fd w' = [] \<and> after V fd w' = []"
    and "fs_open K path (O_RDONLY K) m w = (fd, w') \<Longrightarrow> fd \<noteq> -1 \<Longrightarrow>
      plain V fd w' \<and> content V w = Some (after V fd w')"
    and "fs_write_call K fd buf w = (n, w') \<Longrightarrow> n \<noteq> -1 \<Longrightarrow> plain V fd w \<Longrightarrow>
      plain V fd w' \<and> unat n \<le> length buf \<and> before V fd w' = before V fd w @ take (unat n) buf \<and>
      after V fd w' = drop (unat n) (after V fd w)"
    and "fs_read_call K fd len w = ((n, got), w') \<Longrightarrow> n \<noteq> -1 \<Longrightarrow> plain V fd w \<Longrightarrow>
      plain V fd w' \<and> unat n = length got \<and> length got \<le> len \<and> after V fd w = got @ after V fd w' \<and>
      (got = [] \<longrightarrow> len = 0 \<or> after V fd w = [])"
    and "plain V fd w \<Longrightarrow> content V w = Some (before V fd w @ after V fd w)"
    and "plain V fd w \<Longrightarrow> content V (snd (fs_close K fd w)) = content V w"
proof -
  note parts = assms [unfolded file_contract_def]
  note opens = parts [THEN conjunct1, rule_format] parts [THEN conjunct2, THEN conjunct1, rule_format]
  note calls = parts [THEN conjunct2, THEN conjunct2, THEN conjunct1, rule_format]
    parts [THEN conjunct2, THEN conjunct2, THEN conjunct2, THEN conjunct1, rule_format]
  show "fs_open K path (O_WRONLY K OR O_CREAT K OR O_TRUNC K) m w = (fd, w') \<Longrightarrow> fd \<noteq> -1 \<Longrightarrow>
      plain V fd w' \<and> before V fd w' = [] \<and> after V fd w' = []"
    using opens(1) .
  show "fs_open K path (O_RDONLY K) m w = (fd, w') \<Longrightarrow> fd \<noteq> -1 \<Longrightarrow>
      plain V fd w' \<and> content V w = Some (after V fd w')"
    using opens(2) .
  show "fs_write_call K fd buf w = (n, w') \<Longrightarrow> n \<noteq> -1 \<Longrightarrow> plain V fd w \<Longrightarrow>
      plain V fd w' \<and> unat n \<le> length buf \<and> before V fd w' = before V fd w @ take (unat n) buf \<and>
      after V fd w' = drop (unat n) (after V fd w)"
    using calls(1) .
  show "fs_read_call K fd len w = ((n, got), w') \<Longrightarrow> n \<noteq> -1 \<Longrightarrow> plain V fd w \<Longrightarrow>
      plain V fd w' \<and> unat n = length got \<and> length got \<le> len \<and> after V fd w = got @ after V fd w' \<and>
      (got = [] \<longrightarrow> len = 0 \<or> after V fd w = [])"
    using calls(2) .
qed (use assms [unfolded file_contract_def] in blast)+

lemma file_create_opens:
  assumes c: "file_contract K path V" and "file_create K path w = (Inr f, w')"
  shows "plain V (file_fd f) w' \<and> before V (file_fd f) w' = [] \<and> after V (file_fd f) w' = []"
proof -
  from assms(2) obtain m where
    "fs_open K path (O_WRONLY K OR O_CREAT K OR O_TRUNC K) m w = (file_fd f, w')" "file_fd f \<noteq> -1"
    by (auto simp: file_create_def options_open_def access_flags_def options_new_def set_truncate_def
        set_create_def set_write_def add_flags_def Let_def and_then_eq_Inr cstr_Inr cvt_i32_def or.assoc
        split: prod.splits if_splits)
  then show ?thesis by (rule file_contract_parts(1) [OF c])
qed

lemma file_open_opens:
  assumes c: "file_contract K path V" and "file_open K path w = (Inr f, w')"
  shows "plain V (file_fd f) w' \<and> content V w = Some (after V (file_fd f) w')"
proof -
  from assms(2) obtain m where "fs_open K path (O_RDONLY K) m w = (file_fd f, w')" "file_fd f \<noteq> -1"
    by (auto simp: file_open_def options_open_def access_flags_def options_new_def set_read_def
        add_flags_def Let_def and_then_eq_Inr cstr_Inr cvt_i32_def split: prod.splits if_splits)
  then show ?thesis by (rule file_contract_parts(2) [OF c])
qed

lemma write_all_on_plain:
  assumes c: "file_contract K path V"
  shows "file_write_all K f buf w = (Inr (), w') \<Longrightarrow> plain V (file_fd f) w \<Longrightarrow> after V (file_fd f) w = [] \<Longrightarrow>
    plain V (file_fd f) w' \<and> before V (file_fd f) w' = before V (file_fd f) w @ buf \<and> after V (file_fd f) w' = []"
  using c
proof (induction K f buf w rule: file_write_all.induct)
  case (1 K f buf w)
  show ?case
  proof (cases "buf = []")
    case True
    with "1.prems" show ?thesis by (simp add: file_write_all.simps)
  next
    case False
    obtain x w1 where wr: "file_write K f buf w = (x, w1)" by (metis prod.exhaust)
    with "1.prems"(1) False obtain n where n: "x = Inr n" "n \<noteq> 0"
      by (cases x) (auto simp: file_write_all.simps [of K f buf] split: if_splits)
    from wr n(1) file_contract_parts(3) [OF "1.prems"(4), of "file_fd f" buf w n w1] "1.prems"(2)
    have step: "plain V (file_fd f) w1" "unat n \<le> length buf"
      "before V (file_fd f) w1 = before V (file_fd f) w @ take (unat n) buf"
      "after V (file_fd f) w1 = drop (unat n) (after V (file_fd f) w)"
      by (auto simp: file_write_call)
    then have rest: "slice_from (unat n) buf = Some (drop (unat n) buf)" by (simp add: slice_from_def)
    then have "file_write_all K f (drop (unat n) buf) w1 = (Inr (), w')"
      using "1.prems"(1) False wr n by (simp add: file_write_all.simps [of K f buf])
    from "1.IH" [OF False wr [symmetric] n(1,2) rest this step(1) _ "1.prems"(4)] step "1.prems"(3)
    show ?thesis by simp
  qed
qed

lemma write_makes_the_contents:
  assumes c: "file_contract K path V" and "fs_write K path data w = (Inr (), w1)"
  shows "content V w1 = Some data"
proof -
  obtain f v1 v2 where f: "file_create K path w = (Inr f, v1)"
    and wr: "file_write_all K f data v1 = (Inr (), v2)" and w1: "w1 = drop_file K f v2"
    using assms(2) by (auto simp: fs_write_def split: sum.splits prod.splits failure.splits)
  from write_all_on_plain [OF c wr] file_create_opens [OF c f]
  have "plain V (file_fd f) v2 \<and> before V (file_fd f) v2 = data \<and> after V (file_fd f) v2 = []" by simp
  with file_contract_parts(5,6) [OF c, of "file_fd f" v2] show ?thesis by (simp add: w1 drop_file_def)
qed

lemma read_loop_on_plain:
  assumes c: "file_contract K path V" and "plain V (file_fd f) w" and "chunk \<noteq> []"
  shows "\<exists>r got w'. file_read_loop K f chunk buf w = Some (r, buf @ got, w') \<and> r \<noteq> Inl Panic \<and>
    (r = Inr () \<longrightarrow> got = after V (file_fd f) w)"
  using assms(2,3)
proof (induction "length (after V (file_fd f) w)" arbitrary: w chunk buf rule: less_induct)
  case less
  obtain x chunk1 w1 where rd: "file_read K f chunk w = (x, chunk1, w1)" by (metis prod.exhaust)
  show ?case
  proof (cases x)
    case (Inl e)
    with rd show ?thesis by (subst file_read_loop.simps) simp
  next
    case (Inr n)
    with rd obtain got where call: "fs_read_call K (file_fd f) (length chunk) w = ((n, got), w1)" "n \<noteq> -1"
      and chunk1: "chunk1 = overwrite chunk got"
      by (auto simp: file_read_call)
    note step = file_contract_parts(4) [OF c call less.prems(1)]
    show ?thesis
    proof (cases "n = 0")
      case True
      with rd Inr step less.prems(2) show ?thesis
        by (subst file_read_loop.simps) (auto intro!: exI [of _ "Inr ()"])
    next
      case False
      with step have got: "got \<noteq> []" "unat n = length got" "length got \<le> length chunk" by (auto simp: unat_eq_zero)
      then have "slice_to (unat n) chunk1 = Some got" by (simp add: chunk1)
      with rd Inr False have loop: "file_read_loop K f chunk buf w = file_read_loop K f chunk1 (buf @ got) w1"
        by (subst file_read_loop.simps) simp
      from step got have "length (after V (file_fd f) w1) < length (after V (file_fd f) w)" by simp
      moreover have "length chunk1 = length chunk" by (simp add: chunk1)
      then have "chunk1 \<noteq> []" using less.prems(2) by auto
      ultimately obtain r more w' where "file_read_loop K f chunk1 (buf @ got) w1 = Some (r, (buf @ got) @ more, w')"
        "r \<noteq> Inl Panic" "r = Inr () \<longrightarrow> more = after V (file_fd f) w1"
        using less.hyps [of w1 chunk1 "buf @ got"] step by blast
      with loop step show ?thesis by (intro exI [of _ r] exI [of _ "got @ more"] exI [of _ w']) auto
    qed
  qed
qed

lemma read_gives_the_contents:
  assumes c: "file_contract K path V" and "content V w = Some data"
  shows "\<exists>r w'. fs_read K path w = Some (r, w') \<and> r \<noteq> Inl Panic \<and> (\<forall>got. r = Inr got \<longrightarrow> got = data)"
proof (cases "file_open K path w")
  case (Pair x u1)
  show ?thesis
  proof (cases x)
    case (Inl e)
    with Pair show ?thesis by (auto simp: fs_read_def)
  next
    case (Inr g)
    with file_open_opens [OF c] Pair have "plain V (file_fd g) u1" "content V w = Some (after V (file_fd g) u1)"
      by auto
    with read_loop_on_plain [OF c this(1), of "replicate 8192 0" "[]"] assms(2) obtain r got u2 where
      "file_read_loop K g (replicate 8192 0) [] u1 = Some (r, got, u2)" "r \<noteq> Inl Panic" "r = Inr () \<longrightarrow> got = data"
      by auto
    with Pair Inr show ?thesis
      by (cases r) (auto simp: fs_read_def file_read_to_end_def split: failure.splits)
  qed
qed

text \<open>
  C18: on a path that names a regular file, or nothing yet, and behaves as documented, a
  successful \<^verbatim>\<open>fs::write\<close> makes its contents exactly the given bytes, whatever short writes occur
  on the way, and a \<^verbatim>\<open>fs::read\<close> after it returns without a panic and, when it succeeds, gives
  back those bytes.
\<close>

theorem write_then_read:
  assumes "file_contract K path V" and "fs_write K path data w = (Inr (), w1)"
  shows "content V w1 = Some data \<and>
    (\<exists>r w2. fs_read K path w1 = Some (r, w2) \<and> r \<noteq> Inl Panic \<and> (\<forall>got. r = Inr got \<longrightarrow> got = data))"
  using write_makes_the_contents [OF assms] read_gives_the_contents [OF assms(1)] by blast

text \<open>
  A file system in memory: the contents of the paths, and for each descriptor its path and
  offset. At most five bytes are moved per call; opening gives descriptor 3.
\<close>

type_synonym mem = "(string \<Rightarrow> u8 list option) \<times> (i32 \<Rightarrow> (string \<times> nat) option)"

definition mem_at :: "i32 \<Rightarrow> mem \<Rightarrow> (string \<times> u8 list \<times> nat) option" where
  "mem_at fd w =
     (case snd w fd of
        None \<Rightarrow> None
      | Some (p, off) \<Rightarrow> (case fst w p of None \<Rightarrow> None | Some c \<Rightarrow> Some (p, c, min off (length c))))"

definition mem_view :: "string \<Rightarrow> mem file_view" where
  "mem_view p =
     \<lparr>content = (\<lambda>w. fst w p),
      plain = (\<lambda>fd w. \<exists>c off. mem_at fd w = Some (p, c, off)),
      before = (\<lambda>fd w. case mem_at fd w of None \<Rightarrow> [] | Some (_, c, off) \<Rightarrow> take off c),
      after = (\<lambda>fd w. case mem_at fd w of None \<Rightarrow> [] | Some (_, c, off) \<Rightarrow> drop off c)\<rparr>"

definition inert_fs :: "'w fs_sys" where
  "inert_fs =
     \<lparr>sys_errno = (\<lambda>_. 2), sys_set_errno = (\<lambda>_ w. w), sys_strerror = (\<lambda>_. None),
      EINTR = 4, EAGAIN = 35, EWOULDBLOCK = 35, EINVAL = 22,
      fs_open = (\<lambda>_ _ _ w. (-1, w)), fs_close = (\<lambda>_ w. (-1, w)),
      fs_read_call = (\<lambda>_ _ w. ((-1, []), w)), fs_write_call = (\<lambda>_ _ w. (-1, w)),
      fs_lseek = (\<lambda>_ _ _ w. (-1, w)), fs_fsync = (\<lambda>_ w. (-1, w)), fs_ftruncate = (\<lambda>_ _ w. (-1, w)),
      fs_unlink = (\<lambda>_ w. (-1, w)), fs_mkdir = (\<lambda>_ _ w. (-1, w)), fs_rmdir = (\<lambda>_ w. (-1, w)),
      fs_rename_call = (\<lambda>_ _ w. (-1, w)), fs_access = (\<lambda>_ _ w. (-1, w)),
      fs_stat = (\<lambda>_ w. ((-1, \<lparr>st_size = 0, st_mode = 0\<rparr>), w)),
      fs_opendir = (\<lambda>_ w. (None, w)), fs_readdir = (\<lambda>_ w. (None, w)), fs_closedir = (\<lambda>_ w. (-1, w)),
      O_RDONLY = 0, O_WRONLY = 1, O_RDWR = 2, O_APPEND = 8, O_CREAT = 0x200, O_EXCL = 0x800,
      O_TRUNC = 0x400, SEEK_SET = 0, SEEK_CUR = 1, SEEK_END = 2, S_IFMT = 0xF000,
      S_IFDIR = 0x4000, S_IFREG = 0x8000, F_OK = 0\<rparr>"

definition mem_fs :: "mem fs_sys" where
  "mem_fs = inert_fs
     \<lparr>fs_open := (\<lambda>p fl _ w.
        if fl AND 0x400 = 0x400 then (3, ((fst w)(p := Some []), (snd w)(3 := Some (p, 0))))
        else if fst w p = None then (-1, w) else (3, (fst w, (snd w)(3 := Some (p, 0))))),
      fs_close := (\<lambda>fd w. (0, (fst w, (snd w)(fd := None)))),
      fs_read_call := (\<lambda>fd len w. case mem_at fd w of
          None \<Rightarrow> ((-1, []), w)
        | Some (p, c, off) \<Rightarrow>
            (let n = min 5 (min len (length c - off)) in
             ((of_nat n, take n (drop off c)), (fst w, (snd w)(fd := Some (p, off + n)))))),
      fs_write_call := (\<lambda>fd buf w. case mem_at fd w of
          None \<Rightarrow> (-1, w)
        | Some (p, c, off) \<Rightarrow>
            (let n = min 5 (length buf) in
             (of_nat n, ((fst w)(p := Some (take off c @ take n buf @ drop (off + n) c)),
                         (snd w)(fd := Some (p, off + n))))))\<rparr>"

lemma min_5: "unat (of_nat (min 5 n) :: usize) = min 5 n" "(of_nat (min 5 n) :: usize) \<noteq> -1"
  by (rule of_nat_min_chunk; simp)+

lemma mem_write_call:
  assumes "fs_write_call mem_fs fd buf w = (n, w')" and "n \<noteq> -1" and "plain (mem_view p) fd w"
  shows "plain (mem_view p) fd w' \<and> unat n \<le> length buf \<and>
    before (mem_view p) fd w' = before (mem_view p) fd w @ take (unat n) buf \<and>
    after (mem_view p) fd w' = drop (unat n) (after (mem_view p) fd w)"
proof -
  from assms(3) obtain c off where m: "mem_at fd w = Some (p, c, off)" by (auto simp: mem_view_def)
  then have off: "off \<le> length c" by (auto simp: mem_at_def split: option.splits)
  let ?n = "min 5 (length buf)"
  from assms(1) m have n: "n = of_nat ?n"
    and w': "w' = ((fst w)(p := Some (take off c @ take ?n buf @ drop (off + ?n) c)),
      (snd w)(fd := Some (p, off + ?n)))"
    by (simp_all add: mem_fs_def inert_fs_def Let_def)
  have "mem_at fd w' = Some (p, take off c @ take ?n buf @ drop (off + ?n) c, off + ?n)"
    using off by (simp add: mem_at_def w')
  then show ?thesis using m off by (simp add: n min_5 mem_view_def add.commute)
qed

lemma mem_read_law: "file_read_law mem_fs \<lparr>file_fd = fd\<rparr> (after (mem_view p0) fd)"
  unfolding file_read_law_def
proof (intro allI impI)
  fix len w ret stored w'
  assume r: "fs_read_call mem_fs (file_fd \<lparr>file_fd = fd\<rparr>) len w = ((ret, stored), w')"
  show "if ret = -1 then after (mem_view p0) fd w' = after (mem_view p0) fd w
    else unat ret = length stored \<and> length stored \<le> len \<and>
      after (mem_view p0) fd w = stored @ after (mem_view p0) fd w' \<and>
      (stored = [] \<longrightarrow> len = 0 \<or> after (mem_view p0) fd w = [])"
  proof (cases "mem_at fd w")
    case None
    with r show ?thesis by (simp add: mem_fs_def inert_fs_def)
  next
    case (Some pc)
    then obtain p c off where m: "mem_at fd w = Some (p, c, off)" by (cases pc) auto
    then have off: "off \<le> length c" and c: "fst w p = Some c"
      by (auto simp: mem_at_def split: option.splits)
    let ?n = "min 5 (min len (length c - off))"
    from r m have ret: "ret = of_nat ?n" and st: "stored = take ?n (drop off c)"
      and w': "w' = (fst w, (snd w)(fd := Some (p, off + ?n)))"
      by (simp_all add: mem_fs_def inert_fs_def Let_def)
    have "off + ?n \<le> length c" using off by linarith
    then have "mem_at fd w' = Some (p, c, off + ?n)"
      using c by (simp add: mem_at_def w')
    then have a: "after (mem_view p0) fd w' = drop ?n (drop off c)" "after (mem_view p0) fd w = drop off c"
      using m by (simp_all add: mem_view_def add.commute)
    show ?thesis
      unfolding ret st a by (simp only: min_5 if_False append_take_drop_id) auto
  qed
qed

lemma mem_read_plain:
  assumes "fs_read_call mem_fs fd len w = ((n, got), w')" and "plain (mem_view p) fd w"
  shows "plain (mem_view p) fd w'"
  using assms by (auto simp: mem_fs_def inert_fs_def Let_def mem_view_def mem_at_def split: option.splits)

lemma mem_contract: "file_contract mem_fs p (mem_view p)"
proof -
  have creates: "plain (mem_view p) fd w' \<and> before (mem_view p) fd w' = [] \<and> after (mem_view p) fd w' = []"
    if "fs_open mem_fs p (O_WRONLY mem_fs OR O_CREAT mem_fs OR O_TRUNC mem_fs) m w = (fd, w')" for m w fd w'
    using that by (auto simp: mem_fs_def inert_fs_def mem_view_def mem_at_def)
  have opens: "plain (mem_view p) fd w' \<and> content (mem_view p) w = Some (after (mem_view p) fd w')"
    if "fs_open mem_fs p (O_RDONLY mem_fs) m w = (fd, w')" "fd \<noteq> -1" for m w fd w'
    using that by (auto simp: mem_fs_def inert_fs_def mem_view_def mem_at_def split: if_splits)
  have reads: "plain (mem_view p) fd w' \<and> unat n = length got \<and> length got \<le> len \<and>
      after (mem_view p) fd w = got @ after (mem_view p) fd w' \<and>
      (got = [] \<longrightarrow> len = 0 \<or> after (mem_view p) fd w = [])"
    if "fs_read_call mem_fs fd len w = ((n, got), w')" "n \<noteq> -1" "plain (mem_view p) fd w" for fd len w n got w'
    using mem_read_law [of fd p, unfolded file_read_law_def] mem_read_plain [OF that(1,3)] that by fastforce
  have views: "content (mem_view p) w = Some (before (mem_view p) fd w @ after (mem_view p) fd w)"
    if "plain (mem_view p) fd w" for fd w
    using that by (auto simp: mem_view_def mem_at_def split: option.splits)
  have closes: "content (mem_view p) (snd (fs_close mem_fs fd w)) = content (mem_view p) w" for fd w
    by (simp add: mem_fs_def inert_fs_def mem_view_def)
  show ?thesis
    unfolding file_contract_def
    by (rule conjI [OF _ conjI [OF _ conjI [OF _ conjI [OF _ conjI]]]])
      (use creates in blast, use opens in blast, use mem_write_call in blast, use reads in blast,
       use views in blast, use closes in blast)
qed

theorem write_then_read_witness:
  "\<exists>w1. fs_write mem_fs ''/a'' [1, 2, 3, 4, 5, 6, 7] (\<lambda>_. None, \<lambda>_. None) = (Inr (), w1) \<and>
     fst w1 ''/a'' = Some [1, 2, 3, 4, 5, 6, 7]"
proof -
  have "\<exists>w1. fs_write mem_fs ''/a'' [1, 2, 3, 4, 5, 6, 7] (\<lambda>_. None, \<lambda>_. None) = (Inr (), w1)"
    by (simp add: fs_write_def file_create_def options_open_def access_flags_def options_new_def
        set_truncate_def set_create_def set_write_def add_flags_def Let_def cstr_def cvt_i32_def
        file_write_all.simps file_write_def cvt_ssize_def mem_fs_def inert_fs_def mem_at_def split: prod.split)
  then obtain w1 where w: "fs_write mem_fs ''/a'' [1, 2, 3, 4, 5, 6, 7] (\<lambda>_. None, \<lambda>_. None) = (Inr (), w1)"
    by blast
  from write_then_read [OF mem_contract w] w show ?thesis by (auto simp: mem_view_def)
qed

text \<open>
  C25: \<^verbatim>\<open>read_to_end\<close> returns on every file of finite length, never panics, and appends to the
  caller's vector exactly the bytes it moved the offset past: on success all that was left,
  and their number is the result; an error keeps what was read before it.
\<close>

theorem read_to_end_appends_what_it_consumed:
  assumes "file_read_law K f pend"
  shows "\<exists>r got w'. file_read_to_end K f buf w = Some (r, buf @ got, w') \<and> r \<noteq> Inl Panic \<and>
    pend w = got @ pend w' \<and> (\<forall>n. r = Inr n \<longrightarrow> n = length got \<and> pend w' = []) \<and>
    ((\<forall>buf w e buf' w'. file_read K f buf w \<noteq> (Inl e, buf', w')) \<longrightarrow> r = Inr (length (pend w)))"
proof -
  have "replicate 8192 (0 :: u8) \<noteq> []" by simp
  from file_source.drain_total [OF assms this, of buf w] obtain r got w' where
    run: "file_read_loop K f (replicate 8192 0) buf w = Some (r, buf @ got, w')" and "r \<noteq> Inl Panic"
    and "pend w = got @ pend w'" and "r = Inr () \<longrightarrow> pend w' = []"
    and "(\<forall>buf w e buf' w'. file_read K f buf w \<noteq> (Inl e, buf', w')) \<longrightarrow> r = Inr ()"
    unfolding file_read_loop_drain by blast
  then show ?thesis
    by (cases r) (auto simp: file_read_to_end_def)
qed

theorem read_to_end_appends_what_it_consumed_witness:
  "\<exists>r got w'. file_read_to_end mem_fs \<lparr>file_fd = 3\<rparr> [9]
     ([''/a'' \<mapsto> [1, 2]], [3 \<mapsto> (''/a'', 0)]) = Some (r, [9] @ got, w') \<and> r \<noteq> Inl Panic"
  using read_to_end_appends_what_it_consumed [OF mem_read_law, of 3] by meson

lemma add_flags_or: "add_flags K o' m = m OR add_flags K o' 0"
  by (simp add: add_flags_def Let_def or.assoc)

lemma add_flags_bits:
  assumes "\<forall>a \<in> {O_APPEND K, O_CREAT K, O_EXCL K, O_TRUNC K}.
      \<forall>b \<in> {O_APPEND K, O_CREAT K, O_EXCL K, O_TRUNC K}. a \<noteq> b \<longrightarrow> a AND b = 0"
    and "distinct [O_APPEND K, O_CREAT K, O_EXCL K, O_TRUNC K]"
  shows "add_flags K o' 0 AND O_APPEND K = (if oo_append o' then O_APPEND K else 0)"
    and "add_flags K o' 0 AND O_CREAT K = (if oo_create o' \<or> oo_create_new o' then O_CREAT K else 0)"
    and "add_flags K o' 0 AND O_EXCL K = (if oo_create_new o' then O_EXCL K else 0)"
    and "add_flags K o' 0 AND O_TRUNC K =
      (if oo_truncate o' \<and> \<not> oo_create_new o' then O_TRUNC K else 0)"
proof -
  have bits: "(x OR y) AND z = (x AND z) OR (y AND z)" for x y z :: u32
    by (rule bit_word_eqI) (auto simp: bit_simps)
  have dis: "O_APPEND K AND O_CREAT K = 0" "O_CREAT K AND O_APPEND K = 0"
    "O_APPEND K AND O_EXCL K = 0" "O_EXCL K AND O_APPEND K = 0"
    "O_APPEND K AND O_TRUNC K = 0" "O_TRUNC K AND O_APPEND K = 0"
    "O_CREAT K AND O_EXCL K = 0" "O_EXCL K AND O_CREAT K = 0"
    "O_CREAT K AND O_TRUNC K = 0" "O_TRUNC K AND O_CREAT K = 0"
    "O_EXCL K AND O_TRUNC K = 0" "O_TRUNC K AND O_EXCL K = 0"
    using assms by auto
  show "add_flags K o' 0 AND O_APPEND K = (if oo_append o' then O_APPEND K else 0)"
    "add_flags K o' 0 AND O_CREAT K = (if oo_create o' \<or> oo_create_new o' then O_CREAT K else 0)"
    "add_flags K o' 0 AND O_EXCL K = (if oo_create_new o' then O_EXCL K else 0)"
    "add_flags K o' 0 AND O_TRUNC K = (if oo_truncate o' \<and> \<not> oo_create_new o' then O_TRUNC K else 0)"
    by (auto simp: add_flags_def Let_def bits dis)
qed

lemma options_open_call:
  assumes "access_flags K o' = Inr m" and "NUL \<notin> set p"
  shows "options_open K o' p w =
    (case fs_open K p (m OR add_flags K o' 0) 0x1A4 w of
       (fd, w1) \<Rightarrow> if fd = -1 then (Inl (last_os K w1), w1) else (Inr \<lparr>file_fd = fd\<rparr>, w1))"
  using assms
  by (simp add: options_open_def cstr_def Let_def add_flags_or [of K o' m] DEFAULT_CREATE_MODE_def
      cvt_i32_def split: prod.split)

text \<open>
  C29: with the flag values of the system disjoint sets of bits, \<^verbatim>\<open>open\<close> calls
  the system with the access mode the read, write and append options ask for, \<^verbatim>\<open>O_APPEND\<close>
  exactly for append, \<^verbatim>\<open>O_CREAT\<close> exactly for create or create_new, \<^verbatim>\<open>O_EXCL\<close> exactly for
  create_new, and \<^verbatim>\<open>O_TRUNC\<close> exactly for truncate without create_new; with no access option
  it fails before any call.
\<close>

theorem open_flags_follow_the_options:
  assumes "\<forall>a \<in> {O_APPEND K, O_CREAT K, O_EXCL K, O_TRUNC K}.
      \<forall>b \<in> {O_APPEND K, O_CREAT K, O_EXCL K, O_TRUNC K}. a \<noteq> b \<longrightarrow> a AND b = 0"
    and "distinct [O_APPEND K, O_CREAT K, O_EXCL K, O_TRUNC K]"
    and "NUL \<notin> set path"
  shows "if \<not> oo_read o' \<and> \<not> oo_write o' \<and> \<not> oo_append o'
    then options_open K o' path w =
      (Inl (InvalidInput ''OpenOptions: no access mode set (need read and/or write)''), w)
    else \<exists>mode extra.
      mode = (if \<not> oo_write o' \<and> \<not> oo_append o' then O_RDONLY K
              else if oo_read o' then O_RDWR K else O_WRONLY K) \<and>
      extra AND O_APPEND K = (if oo_append o' then O_APPEND K else 0) \<and>
      extra AND O_CREAT K = (if oo_create o' \<or> oo_create_new o' then O_CREAT K else 0) \<and>
      extra AND O_EXCL K = (if oo_create_new o' then O_EXCL K else 0) \<and>
      extra AND O_TRUNC K = (if oo_truncate o' \<and> \<not> oo_create_new o' then O_TRUNC K else 0) \<and>
      options_open K o' path w =
        (case fs_open K path (mode OR extra) 0x1A4 w of
           (fd, w1) \<Rightarrow> if fd = -1 then (Inl (last_os K w1), w1) else (Inr \<lparr>file_fd = fd\<rparr>, w1))"
proof (cases "\<not> oo_read o' \<and> \<not> oo_write o' \<and> \<not> oo_append o'")
  case True
  then show ?thesis by (simp add: options_open_def access_flags_def)
next
  case False
  let ?mode = "if \<not> oo_write o' \<and> \<not> oo_append o' then O_RDONLY K
    else if oo_read o' then O_RDWR K else O_WRONLY K"
  from False have "access_flags K o' = Inr ?mode" by (auto simp: access_flags_def)
  from options_open_call [OF this assms(3)] show ?thesis
    unfolding if_not_P [OF False]
    by (intro exI [of _ ?mode] exI [of _ "add_flags K o' 0"] conjI refl
        add_flags_bits [OF assms(1,2)]) assumption
qed

theorem open_flags_follow_the_options_witness:
  "O_TRUNC mem_fs AND O_CREAT mem_fs = 0 \<and>
   (\<exists>mode extra. mode = O_WRONLY mem_fs \<and>
     extra AND O_TRUNC mem_fs = 0 \<and> extra AND O_EXCL mem_fs = O_EXCL mem_fs \<and>
     options_open mem_fs (set_truncate True (set_create_new True (set_write True options_new))) ''/a''
       (\<lambda>_. None, \<lambda>_. None) =
     (case fs_open mem_fs ''/a'' (mode OR extra) 0x1A4 (\<lambda>_. None, \<lambda>_. None) of
        (fd, w1) \<Rightarrow> if fd = -1 then (Inl (last_os mem_fs w1), w1) else (Inr \<lparr>file_fd = fd\<rparr>, w1)))"
proof -
  have "\<forall>a \<in> {O_APPEND mem_fs, O_CREAT mem_fs, O_EXCL mem_fs, O_TRUNC mem_fs}.
      \<forall>b \<in> {O_APPEND mem_fs, O_CREAT mem_fs, O_EXCL mem_fs, O_TRUNC mem_fs}. a \<noteq> b \<longrightarrow> a AND b = 0"
    "distinct [O_APPEND mem_fs, O_CREAT mem_fs, O_EXCL mem_fs, O_TRUNC mem_fs]"
    by (simp_all add: mem_fs_def inert_fs_def)
  from open_flags_follow_the_options [OF this, of "''/a''"
      "set_truncate True (set_create_new True (set_write True options_new))" "(\<lambda>_. None, \<lambda>_. None)"]
  show ?thesis
    by (auto simp: set_truncate_def set_create_new_def set_write_def options_new_def) (simp add: mem_fs_def inert_fs_def)
qed

end
