(* ===== verification/Fs_Paths.thy ===== *)
theory Fs_Paths
  imports Fs
begin

unbundle bit_operations_syntax

text \<open>
  More of what the file code promises: where seeking goes, which names and entries a directory
  reader gives, who closes a file, and which paths are refused. The operations are those of
  theory \<open>Fs\<close>.
\<close>

section \<open>Seeking\<close>

text \<open>
  \<^verbatim>\<open>lseek\<close> on an open regular file, as documented: the new offset is the distance from the
  start, the old offset or the end, and a target that is negative or no \<^verbatim>\<open>off_t\<close> is refused.
\<close>

definition lseek_law ::
  "('w, 'x) fs_sys_scheme \<Rightarrow> i32 \<Rightarrow> ('w \<Rightarrow> int) \<Rightarrow> ('w \<Rightarrow> int) \<Rightarrow> bool" where
  "lseek_law K fd at len \<longleftrightarrow>
     distinct [SEEK_SET K, SEEK_CUR K, SEEK_END K] \<and>
     (\<forall>off wh w ret w'. fs_lseek K fd off wh w = (ret, w') \<longrightarrow>
        wh \<in> {SEEK_SET K, SEEK_CUR K, SEEK_END K} \<longrightarrow>
        (let target = (if wh = SEEK_SET K then 0 else if wh = SEEK_CUR K then at w else len w) + sint off
         in len w' = len w \<and>
            (if 0 \<le> target \<and> target < 2 ^ 63
             then ret = word_of_int target \<and> at w' = target
             else ret = -1 \<and> at w' = at w)))"

definition seek_target :: "int \<Rightarrow> int \<Rightarrow> seek_from \<Rightarrow> int" where
  "seek_target at len pos =
     (case pos of SeekStart n \<Rightarrow> uint n | SeekEnd d \<Rightarrow> len + sint d | SeekCurrent d \<Rightarrow> at + sint d)"

lemma small_offset:
  assumes "0 \<le> t" and "t < 2 ^ 63"
  shows "(word_of_int t :: 64 word) \<noteq> -1"
proof
  assume "(word_of_int t :: 64 word) = -1"
  then have "uint (word_of_int t :: 64 word) = uint (-1 :: 64 word)" by simp
  then have "t mod 2 ^ 64 = 2 ^ 64 - 1" by (simp add: uint_word_of_int unsigned_minus_1_eq_mask mask_eq_exp_minus_1)
  moreover have "t mod 2 ^ 64 = t" using assms by simp
  ultimately show False using assms(2) by simp
qed

lemma sint_start:
  fixes n :: u64
  shows "uint n < 2 ^ 63 \<Longrightarrow> sint n = uint n" and "\<not> uint n < 2 ^ 63 \<Longrightarrow> sint n < 0"
proof -
  have u: "0 \<le> uint n" "uint n < 2 ^ 64" using uint_lt2p [of n] by simp_all
  have s: "sint n = signed_take_bit 63 (uint n)" by (simp add: sint_uint)
  show "sint n = uint n" if "uint n < 2 ^ 63"
    unfolding s
  proof (rule signed_take_bit_int_eq_self)
    show "- (2 ^ 63) \<le> uint n" by (rule order_trans [OF _ u(1)]) simp
  qed (use that in simp)
  show "sint n < 0" if "\<not> uint n < 2 ^ 63"
  proof (rule ccontr)
    assume "\<not> sint n < 0"
    then have "0 \<le> sint n" "sint n < 2 ^ 64" using sint_less [of n] by simp_all
    then have "uint n = sint n" by (simp add: uint_sint take_bit_int_eq_self)
    with sint_less [of n] that show False by simp
  qed
qed

text \<open>What \<^verbatim>\<open>seek\<close> asks of \<^verbatim>\<open>lseek\<close>: an offset and where it counts from.\<close>

definition seek_args :: "('w, 'x) fs_sys_scheme \<Rightarrow> seek_from \<Rightarrow> 64 word \<times> i32" where
  "seek_args K pos =
     (case pos of SeekStart n \<Rightarrow> (n, SEEK_SET K) | SeekEnd d \<Rightarrow> (d, SEEK_END K)
      | SeekCurrent d \<Rightarrow> (d, SEEK_CUR K))"

lemma file_seek_call:
  assumes "fs_lseek K (file_fd f) (fst (seek_args K pos)) (snd (seek_args K pos)) w = (ret, w')"
  shows "file_seek K f pos w = (if ret = -1 then (Inl (last_os K w'), w') else (Inr ret, w'))"
  using assms by (cases pos) (simp_all add: file_seek_def seek_args_def)

text \<open>As a signed offset a start beyond the signed range counts as before the beginning.\<close>

lemma seek_args_target:
  assumes "lseek_law K fd at len"
    and t_def: "t = (if snd (seek_args K pos) = SEEK_SET K then 0
      else if snd (seek_args K pos) = SEEK_CUR K then at w else len w) + sint (fst (seek_args K pos))"
  shows "(0 \<le> t \<and> t < 2 ^ 63) = (0 \<le> seek_target (at w) (len w) pos \<and> seek_target (at w) (len w) pos < 2 ^ 63)"
    and "0 \<le> t \<and> t < 2 ^ 63 \<Longrightarrow> t = seek_target (at w) (len w) pos"
proof -
  have d: "SEEK_SET K \<noteq> SEEK_CUR K" "SEEK_SET K \<noteq> SEEK_END K" "SEEK_CUR K \<noteq> SEEK_END K"
    using assms(1) by (auto simp: lseek_law_def)
  have "(0 \<le> sint n \<and> sint n < 2 ^ 63) = (uint n < 2 ^ 63)" for n :: u64
    using sint_start [of n] by (cases "uint n < 2 ^ 63") auto
  then show "(0 \<le> t \<and> t < 2 ^ 63) = (0 \<le> seek_target (at w) (len w) pos \<and> seek_target (at w) (len w) pos < 2 ^ 63)"
    using d by (cases pos) (simp_all add: seek_target_def seek_args_def t_def)
  show "t = seek_target (at w) (len w) pos" if "0 \<le> t \<and> t < 2 ^ 63"
    using that d sint_start by (cases pos) (force simp: seek_target_def seek_args_def t_def)+
qed

lemma lseek_law_call:
  assumes "lseek_law K fd at len"
    and "fs_lseek K fd (fst (seek_args K pos)) (snd (seek_args K pos)) w = (ret, w')"
  shows "len w' = len w \<and>
    (if 0 \<le> seek_target (at w) (len w) pos \<and> seek_target (at w) (len w) pos < 2 ^ 63
     then ret = word_of_int (seek_target (at w) (len w) pos) \<and> at w' = seek_target (at w) (len w) pos
     else ret = -1 \<and> at w' = at w)"
proof -
  define t where "t = (if snd (seek_args K pos) = SEEK_SET K then 0
      else if snd (seek_args K pos) = SEEK_CUR K then at w else len w) + sint (fst (seek_args K pos))"
  have "snd (seek_args K pos) \<in> {SEEK_SET K, SEEK_CUR K, SEEK_END K}"
    by (cases pos) (simp_all add: seek_args_def)
  with assms have law: "len w' = len w \<and> (if 0 \<le> t \<and> t < 2 ^ 63
      then ret = word_of_int t \<and> at w' = t else ret = -1 \<and> at w' = at w)"
    unfolding lseek_law_def Let_def t_def by blast
  note target = seek_args_target [OF assms(1) t_def]
  show ?thesis
  proof (cases "0 \<le> t \<and> t < 2 ^ 63")
    case True
    from law True show ?thesis unfolding target(2) [OF True] by simp
  next
    case False
    from law False show ?thesis unfolding target(1) [symmetric] by (simp only: if_False)
  qed
qed

text \<open>
  C26: seeking moves the offset exactly where it was asked to and reports that offset, or, when
  the place is before the start or beyond what an \<^verbatim>\<open>off_t\<close> can hold, fails with the system's
  error and leaves the offset alone. In particular an unsigned start offset of \<open>2 ^ 63\<close> or
  more, which the cast turns into a negative number, never lands anywhere else.
\<close>

theorem seek_goes_where_asked:
  assumes "lseek_law K (file_fd f) at len"
  shows "case file_seek K f pos w of (r, w') \<Rightarrow>
    len w' = len w \<and>
    (if 0 \<le> seek_target (at w) (len w) pos \<and> seek_target (at w) (len w) pos < 2 ^ 63
     then r = Inr (word_of_int (seek_target (at w) (len w) pos)) \<and>
          at w' = seek_target (at w) (len w) pos
     else r = Inl (last_os K w') \<and> at w' = at w)"
proof -
  obtain ret w' where call:
    "fs_lseek K (file_fd f) (fst (seek_args K pos)) (snd (seek_args K pos)) w = (ret, w')"
    by (metis prod.exhaust)
  from lseek_law_call [OF assms call] file_seek_call [OF call] small_offset show ?thesis
    by (auto split: if_splits)
qed

text \<open>A file of ten bytes with the offset as the state.\<close>

definition seek_fs :: "int fs_sys" where
  "seek_fs = inert_fs
     \<lparr>fs_lseek := (\<lambda>_ off wh at.
        let target = (if wh = 0 then 0 else if wh = 1 then at else 10) + sint off
        in if 0 \<le> target \<and> target < 2 ^ 63 then (word_of_int target, target) else (-1, at))\<rparr>"

lemma seek_fs_law: "lseek_law seek_fs fd id (\<lambda>_. 10)"
  by (auto simp: lseek_law_def seek_fs_def inert_fs_def Let_def split: if_splits)

theorem seek_goes_where_asked_witness:
  "file_seek seek_fs \<lparr>file_fd = 3\<rparr> (SeekEnd (-4)) 0 = (Inr 6, 6)"
  using seek_goes_where_asked [where f = "\<lparr>file_fd = 3\<rparr>" and w = 0 and pos = "SeekEnd (-4)", OF seek_fs_law]
  by (auto simp: seek_target_def split: prod.splits)

section \<open>Directory entries\<close>

text \<open>
  C39: the name of an entry is always valid UTF-8 and made from bytes within the array, and
  when the array holds a valid NUL-terminated name at least as long as announced, or exactly
  the announced bytes without a NUL, it is that name.
\<close>

theorem dirent_name_is_the_stored_name:
  "str_valid (dirent_name ent) \<and>
   (str_valid s \<and> NUL \<notin> set s \<and> d_namlen ent = of_nat (length s) \<and> length s < 2 ^ 64 \<and>
    d_name ent = bytes_of s @ rest \<longrightarrow> dirent_name ent = s) \<and>
   (str_valid s \<and> NUL \<notin> set s \<and> d_name ent = bytes_of s @ 0 # rest \<and> length s \<le> unat (d_namlen ent) \<longrightarrow>
     dirent_name ent = s)"
proof -
  have valid: "str_valid (dirent_name ent)"
    by (simp add: dirent_name_def Let_def str_valid_def)
  have nul: "byte_of c \<noteq> 0" if "c \<noteq> NUL" for c
  proof -
    have "byte_of NUL = 0" by (simp add: byte_of_def)
    with that show ?thesis by (metis byte_of_eq_iff)
  qed
  have tw: "takeWhile (\<lambda>b. b \<noteq> 0) (bytes_of s @ xs) = bytes_of s @ takeWhile (\<lambda>b. b \<noteq> 0) xs"
    if "NUL \<notin> set s" for xs
    using that by (induction s) (auto simp: nul)
  have tw0: "takeWhile (\<lambda>b. b \<noteq> 0) (bytes_of s) = bytes_of s" if "NUL \<notin> set s"
    using tw [OF that, of "[]"] by simp
  have id: "str_of (utf8_lossy (bytes_of s)) = s" if "str_valid s"
    using that by (simp add: str_valid_def utf8_lossy_id)
  have "dirent_name ent = s" if "str_valid s" "NUL \<notin> set s" "d_namlen ent = of_nat (length s)"
    "length s < 2 ^ 64" "d_name ent = bytes_of s @ rest"
    using that id by (simp add: dirent_name_def Let_def unat_of_nat tw0)
  moreover have "dirent_name ent = s" if "str_valid s" "NUL \<notin> set s"
    "d_name ent = bytes_of s @ 0 # rest" "length s \<le> unat (d_namlen ent)"
  proof -
    let ?m = "min (unat (d_namlen ent)) (length (d_name ent))"
    have "length s \<le> ?m" using that(3,4) by simp
    then have "take ?m (d_name ent) = bytes_of s @ take (?m - length s) (0 # rest)"
      by (simp add: that(3))
    moreover have "takeWhile (\<lambda>b. b \<noteq> 0) (take j (0 # rest)) = []" for j
      by (cases j) auto
    ultimately show ?thesis using tw [OF that(2)] id that(1) by (simp add: dirent_name_def Let_def)
  qed
  ultimately show ?thesis using valid by blast
qed

theorem dirent_name_is_the_stored_name_witness:
  "dirent_name \<lparr>d_namlen = 3, d_name = bytes_of ''abc'' @ 0 # [65, 66]\<rparr> = ''abc''"
proof -
  have "str_valid ''abc''" by (rule str_valid_ascii) (simp add: of_char_def)
  then show ?thesis
    using dirent_name_is_the_stored_name
      [of "\<lparr>d_namlen = 3, d_name = bytes_of ''abc'' @ 0 # [65, 66]\<rparr>" "''abc''" "[65, 66]"]
    by simp
qed

text \<open>
  The documented behaviour of \<^verbatim>\<open>readdir\<close> on one stream: it hands out the entries that are
  left one by one (\<open>left\<close>). After them it returns null: at the end of the directory, when it
  leaves \<^verbatim>\<open>errno\<close> as it was, or for an error, when it sets \<^verbatim>\<open>errno\<close> to a code that is not 0
  (\<open>failing\<close> says which of the two comes after the entries that are left).
\<close>

definition dir_contract ::
  "('w, 'x) fs_sys_scheme \<Rightarrow> dir_ptr \<Rightarrow> ('w \<Rightarrow> dirent list) \<Rightarrow> ('w \<Rightarrow> i32 option) \<Rightarrow> bool" where
  "dir_contract K dir left failing \<longleftrightarrow>
     (\<forall>c w. left (sys_set_errno K c w) = left w \<and> failing (sys_set_errno K c w) = failing w \<and>
        sys_errno K (sys_set_errno K c w) = c) \<and>
     (\<forall>w r w'. fs_readdir K dir w = (r, w') \<longrightarrow>
        (case left w of
           ent # ents \<Rightarrow> r = Some ent \<and> left w' = ents \<and> failing w' = failing w
         | [] \<Rightarrow> r = None \<and>
             (case failing w of
                None \<Rightarrow> sys_errno K w' = sys_errno K w
              | Some c \<Rightarrow> c \<noteq> 0 \<and> sys_errno K w' = c)))"

definition is_dot :: "dirent \<Rightarrow> bool" where
  "is_dot ent \<longleftrightarrow> dirent_name ent = ''.'' \<or> dirent_name ent = ''..''"

text \<open>
  C24: \<^verbatim>\<open>next\<close> on a directory always returns, and what it returns is decided by the stream
  alone, not by what \<^verbatim>\<open>errno\<close> held before: the first entry left that is not a dot entry, with
  those behind it still left; if there is none, the end when the stream ends there, and the
  error of \<^verbatim>\<open>readdir\<close>, with its code, when it fails there.
\<close>

theorem read_dir_next_skips_dots:
  assumes "dir_contract K (reader_dir d) left failing"
  shows "\<exists>res w'. read_dir_next K d w = Some (res, w') \<and>
    (case dropWhile is_dot (left w) of
       ent # ents \<Rightarrow> res = Some (Inr \<lparr>entry_name = dirent_name ent\<rparr>) \<and> left w' = ents \<and>
         failing w' = failing w
     | [] \<Rightarrow> res = map_option (\<lambda>c. Inl (Os (Errno c))) (failing w))"
proof (induction "left w" arbitrary: w)
  case Nil
  let ?w0 = "sys_set_errno K 0 w"
  obtain r w1 where rd: "fs_readdir K (reader_dir d) ?w0 = (r, w1)" by (metis prod.exhaust)
  have "left ?w0 = []" "failing ?w0 = failing w" "sys_errno K ?w0 = 0"
    using assms Nil by (simp_all add: dir_contract_def)
  with assms [unfolded dir_contract_def, THEN conjunct2, rule_format, OF rd]
  have "r = None \<and> (case failing w of None \<Rightarrow> sys_errno K w1 = 0 | Some c \<Rightarrow> c \<noteq> 0 \<and> sys_errno K w1 = c)"
    by (cases "failing w") simp_all
  with rd Nil show ?case
    by (subst read_dir_next.simps) (auto simp: Let_def errno_last_def split: option.splits)
next
  case (Cons ent ents)
  let ?w0 = "sys_set_errno K 0 w"
  obtain r w1 where rd: "fs_readdir K (reader_dir d) ?w0 = (r, w1)" by (metis prod.exhaust)
  have "left ?w0 = ent # ents" "failing ?w0 = failing w"
    using assms Cons.hyps(2) by (simp_all add: dir_contract_def)
  with assms [unfolded dir_contract_def, THEN conjunct2, rule_format, OF rd]
  have r: "r = Some ent" "left w1 = ents" "failing w1 = failing w" by simp_all
  have step: "read_dir_next K d w =
      (if is_dot ent then read_dir_next K d w1 else Some (Some (Inr \<lparr>entry_name = dirent_name ent\<rparr>), w1))"
    by (subst read_dir_next.simps) (simp add: rd r(1) Let_def is_dot_def)
  show ?case
  proof (cases "is_dot ent")
    case True
    then have "dropWhile is_dot (left w) = dropWhile is_dot ents" by (simp flip: Cons.hyps(2))
    moreover have "read_dir_next K d w = read_dir_next K d w1" using True step by simp
    ultimately show ?thesis
      using Cons.hyps(1) [OF r(2) [symmetric]] unfolding r(2,3) by (simp only:)
  next
    case False
    with r step show ?thesis by (simp flip: Cons.hyps(2))
  qed
qed

definition dir_fs :: "(i32 \<times> dirent list) fs_sys" where
  "dir_fs = inert_fs
     \<lparr>sys_errno := fst, sys_set_errno := (\<lambda>c w. (c, snd w)),
      fs_readdir := (\<lambda>_ w. case snd w of [] \<Rightarrow> (None, w) | ent # ents \<Rightarrow> (Some ent, (fst w, ents)))\<rparr>"

lemma dir_fs_contract: "dir_contract dir_fs dir snd (\<lambda>_. None)"
  by (auto simp: dir_contract_def dir_fs_def split: list.splits)

definition dot_entry :: dirent where
  "dot_entry = \<lparr>d_namlen = 1, d_name = [46, 0, 0]\<rparr>"

text \<open>A stale \<^verbatim>\<open>errno\<close> of 9 does not turn the end of the directory into an error.\<close>

theorem read_dir_next_skips_dots_witness:
  "\<exists>w'. read_dir_next dir_fs \<lparr>reader_dir = 1\<rparr> (9, [dot_entry]) = Some (None, w') \<and> is_dot dot_entry"
proof -
  have "dirent_name dot_entry = ''.''" by code_simp
  then have dot: "is_dot dot_entry" by (simp add: is_dot_def)
  with read_dir_next_skips_dots [OF dir_fs_contract, of "\<lparr>reader_dir = 1\<rparr>" "(9, [dot_entry])"]
  show ?thesis by auto
qed

section \<open>Who closes a file\<close>

definition traced_fs :: "('w, 'x) fs_sys_scheme \<Rightarrow> ('w \<times> fd_event list) fs_sys" where
  "traced_fs K =
     \<lparr>sys_errno = (\<lambda>wt. sys_errno K (fst wt)),
      sys_set_errno = (\<lambda>c wt. (sys_set_errno K c (fst wt), snd wt)),
      sys_strerror = sys_strerror K,
      EINTR = EINTR K, EAGAIN = EAGAIN K, EWOULDBLOCK = EWOULDBLOCK K, EINVAL = EINVAL K,
      fs_open = (\<lambda>p fl m wt. case fs_open K p fl m (fst wt) of (r, w') \<Rightarrow>
        (r, w', snd wt @ (if r = -1 then [] else [FdOpen r]))),
      fs_close = (\<lambda>fd wt. case fs_close K fd (fst wt) of (r, w') \<Rightarrow> (r, w', snd wt @ [FdClose fd])),
      fs_read_call = (\<lambda>fd len. on_state (fs_read_call K fd len)),
      fs_write_call = (\<lambda>fd buf. on_state (fs_write_call K fd buf)),
      fs_lseek = (\<lambda>fd off wh. on_state (fs_lseek K fd off wh)),
      fs_fsync = (\<lambda>fd. on_state (fs_fsync K fd)),
      fs_ftruncate = (\<lambda>fd n. on_state (fs_ftruncate K fd n)),
      fs_unlink = (\<lambda>p. on_state (fs_unlink K p)), fs_mkdir = (\<lambda>p m. on_state (fs_mkdir K p m)),
      fs_rmdir = (\<lambda>p. on_state (fs_rmdir K p)),
      fs_rename_call = (\<lambda>p q. on_state (fs_rename_call K p q)),
      fs_access = (\<lambda>p m. on_state (fs_access K p m)), fs_stat = (\<lambda>p. on_state (fs_stat K p)),
      fs_opendir = (\<lambda>p. on_state (fs_opendir K p)), fs_readdir = (\<lambda>d. on_state (fs_readdir K d)),
      fs_closedir = (\<lambda>d. on_state (fs_closedir K d)),
      O_RDONLY = O_RDONLY K, O_WRONLY = O_WRONLY K, O_RDWR = O_RDWR K, O_APPEND = O_APPEND K,
      O_CREAT = O_CREAT K, O_EXCL = O_EXCL K, O_TRUNC = O_TRUNC K, SEEK_SET = SEEK_SET K,
      SEEK_CUR = SEEK_CUR K, SEEK_END = SEEK_END K, S_IFMT = S_IFMT K, S_IFDIR = S_IFDIR K,
      S_IFREG = S_IFREG K, F_OK = F_OK K\<rparr>"

lemma traced_fs_consts [trace_simps]:
  "O_RDONLY (traced_fs K) = O_RDONLY K" "O_WRONLY (traced_fs K) = O_WRONLY K"
  "O_RDWR (traced_fs K) = O_RDWR K" "O_APPEND (traced_fs K) = O_APPEND K"
  "O_CREAT (traced_fs K) = O_CREAT K" "O_EXCL (traced_fs K) = O_EXCL K"
  "O_TRUNC (traced_fs K) = O_TRUNC K"
  by (simp_all add: traced_fs_def)

lemma traced_fs_open [trace_simps]:
  "options_open (traced_fs K) o' p (w, t) =
     (case options_open K o' p w of
        (Inl e, w') \<Rightarrow> (Inl e, w', t)
      | (Inr f, w') \<Rightarrow> (Inr f, w', t @ [FdOpen (file_fd f)]))"
proof -
  have flags: "access_flags (traced_fs K) o' = access_flags K o'"
    "add_flags (traced_fs K) o' x = add_flags K o' x" for x
    by (simp_all add: access_flags_def add_flags_def traced_fs_consts split: bool.split)
  show ?thesis
    unfolding options_open_def flags
    by (cases "access_flags K o'"; cases "cstr p")
       (auto simp: traced_fs_def cvt_i32_def last_os_def errno_last_def split: prod.split)
qed

lemma traced_fs_drop [trace_simps]:
  "drop_file (traced_fs K) f (w, t) = (drop_file K f w, t @ [FdClose (file_fd f)])"
  by (simp add: drop_file_def traced_fs_def split: prod.splits)

lemma traced_fs_keeps:
  "file_read (traced_fs K) f buf wt = (r, buf', wt') \<Longrightarrow> snd wt' = snd wt"
  "file_write (traced_fs K) f buf wt = (r', wt') \<Longrightarrow> snd wt' = snd wt"
  by (auto simp: file_read_def file_write_def traced_fs_def on_state_def cvt_ssize_def
      split: prod.splits if_splits)

interpretation open_fd: fd_constructor "\<lambda>K (o', p). options_open K o' p"
  "\<lambda>K (o', p). options_open (traced_fs K) o' p" "\<lambda>K. drop_file (traced_fs K)" file_fd
  by unfold_locales
     (auto simp: trace_simps owns_only_def split: prod.splits sum.splits)

lemma traced_write_all: "snd (snd (file_write_all (traced_fs K) f buf wt)) = snd wt"
proof -
  let ?K = "traced_fs K"
  have "pump (file_write ?K f)
      (\<lambda>_. InvalidInput ''write returned zero (failed to write whole buffer)'') (\<lambda>_. False) buf wt =
    Some (fst (file_write_all ?K f buf wt), snd (file_write_all ?K f buf wt))"
    by (simp add: file_write_all_pump)
  from pump_keeps [of "file_write ?K f" snd, OF traced_fs_keeps(2) this] show ?thesis .
qed

lemma traced_read_to_end:
  assumes "file_read_to_end (traced_fs K) f buf wt = Some (r, buf', wt')"
  shows "snd wt' = snd wt"
proof -
  from assms obtain x where
    "drain (file_read (traced_fs K) f) (replicate 8192 0) buf wt = Some (x, buf', wt')"
    by (auto simp: file_read_to_end_def file_read_loop_drain split: option.splits sum.splits)
  from drain_keeps [of "file_read (traced_fs K) f" snd, OF traced_fs_keeps(1) this] show ?thesis .
qed

text \<open>
  How an operation may leave the descriptors: untouched, or one opened and closed again, once;
  an abort leaves it open.
\<close>

definition closes_again :: "(failure + 'a) \<Rightarrow> fd_event list \<Rightarrow> fd_event list \<Rightarrow> bool" where
  "closes_again r t t' \<longleftrightarrow>
     t' = t \<or> (\<exists>fd. t' = t @ (if r = Inl Panic then [FdOpen fd] else [FdOpen fd, FdClose fd]))"

text \<open>No call reports more bytes than it was offered.\<close>

definition bounded_io :: "('w, 'x) fs_sys_scheme \<Rightarrow> bool" where
  "bounded_io K \<longleftrightarrow>
     (\<forall>fd buf w. fst (fs_write_call K fd buf w) = -1 \<or> unat (fst (fs_write_call K fd buf w)) \<le> length buf) \<and>
     (\<forall>fd len w. fst (fst (fs_read_call K fd len w)) = -1 \<or>
        unat (fst (fst (fs_read_call K fd len w))) \<le> len)"

lemma bounded_calls:
  assumes "bounded_io K"
  shows "fs_write_call K fd buf w = (n, w') \<Longrightarrow> n \<noteq> -1 \<Longrightarrow> unat n \<le> length buf"
    and "fs_read_call K fd len w = ((n, got), w') \<Longrightarrow> n \<noteq> -1 \<Longrightarrow> unat n \<le> len"
  using assms unfolding bounded_io_def by (metis fst_conv)+

lemma traced_bounded: "bounded_io K \<Longrightarrow> bounded_io (traced_fs K)"
  by (simp add: bounded_io_def traced_fs_def on_state_def split: prod.split) (metis fst_conv)

lemma write_all_no_panic: "bounded_io K \<Longrightarrow> fst (file_write_all K f buf w) \<noteq> Inl Panic"
proof (induction K f buf w rule: file_write_all.induct)
  case (1 K f buf w)
  obtain x w1 where wr: "file_write K f buf w = (x, w1)" by (metis prod.exhaust)
  have "unat n \<le> length buf" if "x = Inr n" for n
    using wr that by (auto simp: file_write_call intro: bounded_calls(1) [OF "1.prems"])
  then have "\<exists>rest. slice_from (unat n) buf = Some rest" if "x = Inr n" for n
    using that by (simp add: slice_from_def)
  with "1.IH" [OF _ wr [symmetric]] wr "1.prems" show ?case
    by (cases x) (auto simp: file_write_all.simps [of K f buf])
qed

lemma traced_read_no_panic:
  assumes "file_read_to_end (traced_fs K) f buf wt = Some (Inl Panic, buf', wt')"
  shows "\<not> bounded_io K"
proof
  assume b: "bounded_io K"
  have fits: "unat n \<le> length c'" if "file_read (traced_fs K) f c v = (Inr n, c', v')" for c n c' v v'
    using that by (auto simp: file_read_call intro: bounded_calls(2) [OF traced_bounded [OF b]])
  from assms obtain a v where
    "file_read_loop (traced_fs K) f (replicate 8192 0) buf wt = Some (Inl Panic, a, v)"
    by (auto simp: file_read_to_end_def split: option.splits sum.splits)
  then have run: "drain (file_read (traced_fs K) f) (replicate 8192 0) buf wt = Some (Inl Panic, a, v)"
    by (simp add: file_read_loop_drain)
  have "(Inl Panic :: failure + unit) \<noteq> Inl Panic" by (rule drain_no_panic [OF _ run]) (rule fits)
  then show False by simp
qed

text \<open>
  C32: the whole-path operations open at most one descriptor and close it again, once, whether
  they succeed, fail or find bad contents. Only a panic, which aborts the process, leaves it
  to the system, and there is none as long as no call reports more bytes than it was offered.
\<close>

theorem path_operations_close_their_file:
  "(\<forall>r w' t'. fs_write (traced_fs K) p data (w, t) = (r, w', t') \<longrightarrow>
      closes_again r t t' \<and> (bounded_io K \<longrightarrow> r \<noteq> Inl Panic)) \<and>
   (\<forall>r w' t'. fs_read (traced_fs K) p (w, t) = Some (r, w', t') \<longrightarrow>
      closes_again r t t' \<and> (bounded_io K \<longrightarrow> r \<noteq> Inl Panic)) \<and>
   (\<forall>r w' t'. fs_read_to_string (traced_fs K) p (w, t) = Some (r, w', t') \<longrightarrow>
      closes_again r t t' \<and> (bounded_io K \<longrightarrow> r \<noteq> Inl Panic))"
proof -
  let ?K = "traced_fs K"
  have w: "closes_again r t t' \<and> (bounded_io K \<longrightarrow> r \<noteq> Inl Panic)"
    if "fs_write ?K p data (w, t) = (r, w', t')" for r w' t'
  proof (cases "file_create K p w")
    case (Pair x w1)
    show ?thesis
    proof (cases x)
      case (Inl e)
      with that Pair show ?thesis by (auto simp: fs_write_def file_create_def trace_simps closes_again_def)
    next
      case (Inr f)
      obtain y w2 t2 where all: "file_write_all ?K f data (w1, t @ [FdOpen (file_fd f)]) = (y, w2, t2)"
        by (metis prod.exhaust)
      have "t2 = t @ [FdOpen (file_fd f)]" "bounded_io K \<longrightarrow> y \<noteq> Inl Panic"
        using traced_write_all [of K f data "(w1, t @ [FdOpen (file_fd f)])"]
          write_all_no_panic [OF traced_bounded, of K f data "(w1, t @ [FdOpen (file_fd f)])"]
        by (simp_all add: all)
      with that Pair Inr all show ?thesis
        by (auto simp: fs_write_def file_create_def trace_simps closes_again_def
            split: sum.splits failure.splits)
    qed
  qed
  have r: "closes_again r t t' \<and> (bounded_io K \<longrightarrow> r \<noteq> Inl Panic)"
    if run: "fs_read ?K p (w, t) = Some (r, w', t')" for r w' t'
  proof (cases "file_open K p w")
    case (Pair x w1)
    show ?thesis
    proof (cases x)
      case (Inl e)
      with that Pair show ?thesis by (auto simp: fs_read_def file_open_def trace_simps closes_again_def)
    next
      case (Inr f)
      let ?wt = "(w1, t @ [FdOpen (file_fd f)])"
      obtain y buf w2 t2 where rd: "file_read_to_end ?K f [] ?wt = Some (y, buf, w2, t2)"
        using run Pair Inr by (auto simp: fs_read_def file_open_def trace_simps split: option.splits)
      have "t2 = t @ [FdOpen (file_fd f)]" using traced_read_to_end [OF rd] by simp
      moreover have "bounded_io K \<longrightarrow> y \<noteq> Inl Panic" using traced_read_no_panic rd by blast
      ultimately show ?thesis using run Pair Inr rd
        by (auto simp: fs_read_def file_open_def trace_simps closes_again_def
            split: sum.splits failure.splits)
    qed
  qed
  show ?thesis
    using w r by (fastforce simp: fs_read_to_string_def closes_again_def split: option.splits sum.splits)
qed

theorem path_operations_close_their_file_witness:
  "bounded_io mem_fs \<and>
   (case fs_write (traced_fs mem_fs) ''/a'' [1, 2] ((\<lambda>_. None, \<lambda>_. None), []) of
      (r, w', t') \<Rightarrow> t' = [] \<or> (\<exists>fd. t' = [FdOpen fd, FdClose fd]))"
proof -
  have b: "bounded_io mem_fs"
    by (auto simp: bounded_io_def mem_fs_def inert_fs_def Let_def min_5 split: option.split)
  obtain r w' t' where run: "fs_write (traced_fs mem_fs) ''/a'' [1, 2] ((\<lambda>_. None, \<lambda>_. None), []) = (r, w', t')"
    by (metis prod.exhaust)
  with path_operations_close_their_file [of mem_fs "''/a''" "[1, 2]" "(\<lambda>_. None, \<lambda>_. None)" "[]"] b
  show ?thesis by (auto simp: closes_again_def)
qed

text \<open>
  C40: a path with an interior NUL is refused by every operation that takes one, with any open
  options, before any system call; an existence test answers no. (Options without an access
  mode are refused as such, also before any call.)
\<close>

theorem nul_paths_refused_without_effect:
  "NUL \<in> set p \<Longrightarrow>
   (let e = InvalidInput ''string contains an interior NUL byte'' in
    options_open K o' p w =
      (Inl (if oo_read o' \<or> oo_write o' \<or> oo_append o' then e
            else InvalidInput ''OpenOptions: no access mode set (need read and/or write)''), w) \<and>
    file_open K p w = (Inl e, w) \<and> file_create K p w = (Inl e, w) \<and>
    fs_metadata K p w = (Inl e, w) \<and> fs_read_dir K p w = (Inl e, w) \<and>
    fs_remove_file K p w = (Inl e, w) \<and> fs_create_dir K p w = (Inl e, w) \<and>
    fs_remove_dir K p w = (Inl e, w) \<and> fs_rename K p q w = (Inl e, w) \<and>
    fs_rename K q p w = (Inl e, w) \<and> fs_exists K p w = (False, w) \<and>
    fs_write K p data w = (Inl (Fail e), w) \<and> fs_read K p w = Some (Inl (Fail e), w) \<and>
    fs_read_to_string K p w = Some (Inl (Fail e), w))"
  by (auto simp: Let_def file_open_def file_create_def options_open_def access_flags_def
      options_new_def set_read_def set_write_def set_create_def set_truncate_def cstr_def
      fs_metadata_def fs_read_dir_def fs_remove_file_def fs_create_dir_def fs_remove_dir_def
      fs_rename_def fs_exists_def fs_write_def fs_read_def fs_read_to_string_def split: bool.split)

theorem nul_paths_refused_without_effect_witness:
  "fs_exists mem_fs [CHR ''a'', NUL, CHR ''b''] (\<lambda>_. None, \<lambda>_. None) = (False, (\<lambda>_. None, \<lambda>_. None))"
  using nul_paths_refused_without_effect [of "[CHR ''a'', NUL, CHR ''b'']" mem_fs] by (simp add: Let_def)

end
