(* ===== verification/Sce_Client.thy ===== *)
theory Sce_Client
  imports Streams
begin

text \<open>
  \<^verbatim>\<open>crates/ps5/src/http.rs\<close>: the HTTP client over the SCE Net, SSL and HTTP/2 libraries. The
  library calls are declared by hand in \<^verbatim>\<open>crates/ps5-sys/src/sce.rs\<close> and live in the console's
  firmware, so they are the fields of the parameter record \<open>sce_sys\<close>. They report errors by
  negative return values and never through \<^verbatim>\<open>errno\<close>.
\<close>

section \<open>The system parameters of the client\<close>

record 'w sce_sys =
  sce_net_init :: "'w \<Rightarrow> i32 \<times> 'w"
  sce_net_pool_create :: "string \<Rightarrow> i32 \<Rightarrow> i32 \<Rightarrow> 'w \<Rightarrow> i32 \<times> 'w"
  sce_net_pool_destroy :: "i32 \<Rightarrow> 'w \<Rightarrow> i32 \<times> 'w"
  sce_ssl_init :: "usize \<Rightarrow> 'w \<Rightarrow> i32 \<times> 'w"
  sce_ssl_term :: "i32 \<Rightarrow> 'w \<Rightarrow> i32 \<times> 'w"
  sce_http2_init :: "i32 \<Rightarrow> i32 \<Rightarrow> usize \<Rightarrow> i32 \<Rightarrow> 'w \<Rightarrow> i32 \<times> 'w"
  sce_http2_term :: "i32 \<Rightarrow> 'w \<Rightarrow> i32 \<times> 'w"
  sce_http2_create_template :: "i32 \<Rightarrow> string \<Rightarrow> i32 \<Rightarrow> i32 \<Rightarrow> 'w \<Rightarrow> i32 \<times> 'w"
  sce_http2_delete_template :: "i32 \<Rightarrow> 'w \<Rightarrow> i32 \<times> 'w"
  sce_http2_create_request :: "i32 \<Rightarrow> string \<Rightarrow> string \<Rightarrow> u64 \<Rightarrow> 'w \<Rightarrow> i32 \<times> 'w"
  sce_http2_delete_request :: "i32 \<Rightarrow> 'w \<Rightarrow> i32 \<times> 'w"
  sce_http2_send_request :: "i32 \<Rightarrow> u8 list option \<Rightarrow> usize \<Rightarrow> 'w \<Rightarrow> i32 \<times> 'w"
  sce_http2_get_status_code :: "i32 \<Rightarrow> 'w \<Rightarrow> (i32 \<times> i32) \<times> 'w"
  sce_http2_read_data :: "i32 \<Rightarrow> nat \<Rightarrow> 'w \<Rightarrow> (i32 \<times> u8 list) \<times> 'w"

section \<open>The client\<close>

definition NET_POOL_SIZE :: i32 where
  "NET_POOL_SIZE = 32 * 1024"

definition SSL_POOL_SIZE :: usize where
  "SSL_POOL_SIZE = 256 * 1024"

definition HTTP2_POOL_SIZE :: usize where
  "HTTP2_POOL_SIZE = 256 * 1024"

definition HTTP2_MAX_CONNECTIONS :: i32 where
  "HTTP2_MAX_CONNECTIONS = 1"

definition HTTP2_AUTO_REDIRECT :: i32 where
  "HTTP2_AUTO_REDIRECT = 3"

definition HTTP2_ENABLE :: i32 where
  "HTTP2_ENABLE = 1"

definition SCE_READ_CHUNK :: nat where
  "SCE_READ_CHUNK = 4096"

record client =
  net_mem_id :: i32
  ssl_ctx_id :: i32
  lib_ctx_id :: i32
  tmpl_id :: i32

definition client_new :: "('w, 'x) sce_sys_scheme \<Rightarrow> string \<Rightarrow> 'w \<Rightarrow> client result \<times> 'w" where
  "client_new K user_agent w =
     and_then (cstr user_agent, w) (\<lambda>agent w.
       case sce_net_init K w of (rc, w) \<Rightarrow>
         if rc \<noteq> 0 then (Inl (error_sce ''sceNetInit'' rc), w)
         else case sce_net_pool_create K ''ps5_http'' NET_POOL_SIZE 0 w of (net, w) \<Rightarrow>
           if sint net < 0 then (Inl (error_sce ''sceNetPoolCreate'' net), w)
           else case sce_ssl_init K SSL_POOL_SIZE w of (ssl, w) \<Rightarrow>
             if sint ssl < 0
             then (Inl (error_sce ''sceSslInit'' ssl), snd (sce_net_pool_destroy K net w))
             else case sce_http2_init K net ssl HTTP2_POOL_SIZE HTTP2_MAX_CONNECTIONS w of (lib, w) \<Rightarrow>
               if sint lib < 0
               then (Inl (error_sce ''sceHttp2Init'' lib),
                     snd (sce_net_pool_destroy K net (snd (sce_ssl_term K ssl w))))
               else case sce_http2_create_template K lib agent HTTP2_AUTO_REDIRECT HTTP2_ENABLE w of
                 (tmpl, w) \<Rightarrow>
                   if sint tmpl < 0
                   then (Inl (error_sce ''sceHttp2CreateTemplate'' tmpl),
                         snd (sce_net_pool_destroy K net
                           (snd (sce_ssl_term K ssl (snd (sce_http2_term K lib w))))))
                   else (Inr \<lparr>net_mem_id = net, ssl_ctx_id = ssl, lib_ctx_id = lib, tmpl_id = tmpl\<rparr>, w))"

definition drop_client :: "('w, 'x) sce_sys_scheme \<Rightarrow> client \<Rightarrow> 'w \<Rightarrow> 'w" where
  "drop_client K c w =
     (let w = snd (sce_http2_delete_template K (tmpl_id c) w);
          w = snd (sce_http2_term K (lib_ctx_id c) w);
          w = snd (sce_ssl_term K (ssl_ctx_id c) w)
      in snd (sce_net_pool_destroy K (net_mem_id c) w))"

section \<open>Requests\<close>

record client_response =
  cr_status :: u16
  cr_body :: "u8 list"

definition response_status :: "client_response \<Rightarrow> u16" where
  "response_status r = cr_status r"

definition response_into_body :: "client_response \<Rightarrow> u8 list" where
  "response_into_body r = cr_body r"

text \<open>
  The loop that drains the body. A count beyond the chunk would be the slice panic, a stream
  that never ends a loop that does not return.
\<close>

partial_function (option) drain_body ::
  "('w, 'x) sce_sys_scheme \<Rightarrow> i32 \<Rightarrow> u8 list \<Rightarrow> u8 list \<Rightarrow> 'w \<Rightarrow>
   ((failure + u8 list) \<times> 'w) option" where
  "drain_body K req_id chunk body_buf w =
     (case sce_http2_read_data K req_id (length chunk) w of
        ((n, stored), w1) \<Rightarrow>
          let chunk' = overwrite chunk stored in
          if sint n < 0 then Some (Inl (Fail (error_sce ''sceHttp2ReadData'' n)), w1)
          else if n = 0 then Some (Inr body_buf, w1)
          else (case slice_to (unat n) chunk' of
                  None \<Rightarrow> Some (Inl Panic, w1)
                | Some got \<Rightarrow> drain_body K req_id chunk' (body_buf @ got) w1))"

definition run_request ::
  "('w, 'x) sce_sys_scheme \<Rightarrow> i32 \<Rightarrow> u8 list \<Rightarrow> 'w \<Rightarrow> ((failure + client_response) \<times> 'w) option" where
  "run_request K req_id body w =
     (case (if body = [] then (None, 0) else (Some body, of_nat (length body))) of
        (data, bytes) \<Rightarrow>
      (case sce_http2_send_request K req_id data bytes w of
        (rc, w1) \<Rightarrow>
          if rc \<noteq> 0 then Some (Inl (Fail (error_sce ''sceHttp2SendRequest'' rc)), w1)
          else (case sce_http2_get_status_code K req_id w1 of
            ((rc, status), w2) \<Rightarrow>
              if rc \<noteq> 0 then Some (Inl (Fail (error_sce ''sceHttp2GetStatusCode'' rc)), w2)
              else (case drain_body K req_id (replicate SCE_READ_CHUNK 0) [] w2 of
                      None \<Rightarrow> None
                    | Some (Inl e, w3) \<Rightarrow> Some (Inl e, w3)
                    | Some (Inr body_buf, w3) \<Rightarrow>
                        Some (Inr \<lparr>cr_status = ucast status, cr_body = body_buf\<rparr>, w3)))))"

text \<open>A panic aborts the process, so no deletion follows it.\<close>

definition client_request ::
  "('w, 'x) sce_sys_scheme \<Rightarrow> client \<Rightarrow> string \<Rightarrow> string \<Rightarrow> u8 list \<Rightarrow> 'w \<Rightarrow>
   ((failure + client_response) \<times> 'w) option" where
  "client_request K c method url body w =
     (case cstr method of
        Inl e \<Rightarrow> Some (Inl (Fail e), w)
      | Inr method_c \<Rightarrow>
        (case cstr url of
           Inl e \<Rightarrow> Some (Inl (Fail e), w)
         | Inr url_c \<Rightarrow>
           (case sce_http2_create_request K (tmpl_id c) method_c url_c (of_nat (length body)) w of
              (req_id, w1) \<Rightarrow>
                if sint req_id < 0
                then Some (Inl (Fail (error_sce ''sceHttp2CreateRequestWithURL'' req_id)), w1)
                else (case run_request K req_id body w1 of
                        None \<Rightarrow> None
                      | Some (Inl Panic, w2) \<Rightarrow> Some (Inl Panic, w2)
                      | Some (result, w2) \<Rightarrow>
                          (case sce_http2_delete_request K req_id w2 of
                             (del, w3) \<Rightarrow>
                               (case result of
                                  Inr resp \<Rightarrow>
                                    if del \<noteq> 0
                                    then Some (Inl (Fail (error_sce ''sceHttp2DeleteRequest'' del)), w3)
                                    else Some (Inr resp, w3)
                                | Inl e \<Rightarrow> Some (Inl e, w3)))))))"

definition client_get ::
  "('w, 'x) sce_sys_scheme \<Rightarrow> client \<Rightarrow> string \<Rightarrow> 'w \<Rightarrow>
   ((failure + client_response) \<times> 'w) option" where
  "client_get K c url w = client_request K c ''GET'' url [] w"

section \<open>The body is a byte source\<close>

text \<open>
  One read, as \<^verbatim>\<open>std\<close> would wrap it, and its documented behaviour on the body \<open>pend\<close> of a
  request: positive counts are the next bytes, zero is the end, negative values are errors.
\<close>

definition body_read ::
  "('w, 'x) sce_sys_scheme \<Rightarrow> i32 \<Rightarrow> u8 list \<Rightarrow> 'w \<Rightarrow> usize result \<times> u8 list \<times> 'w" where
  "body_read K req_id buf w =
     (case sce_http2_read_data K req_id (length buf) w of
        ((n, stored), w1) \<Rightarrow>
          (if sint n < 0 then Inl (error_sce ''sceHttp2ReadData'' n) else Inr (ucast n),
           overwrite buf stored, w1))"

definition body_contract ::
  "('w, 'x) sce_sys_scheme \<Rightarrow> i32 \<Rightarrow> ('w \<Rightarrow> u8 list) \<Rightarrow> bool" where
  "body_contract K req_id pend \<longleftrightarrow>
     (\<forall>len w n stored w'. sce_http2_read_data K req_id len w = ((n, stored), w') \<longrightarrow>
        (if sint n < 0 then pend w' = pend w
         else unat n = length stored \<and> length stored \<le> len \<and> pend w = stored @ pend w' \<and>
              (stored = [] \<longrightarrow> len = 0 \<or> pend w = [])))"

lemma unat_ucast_i32: "unat (ucast (n :: i32) :: usize) = unat n"
proof -
  have "unat n < 2 ^ LENGTH(32)" by (rule unsigned_less)
  then have "unat n < 2 ^ 64" by simp
  then show ?thesis by (simp add: unsigned_ucast_eq take_bit_nat_eq_self)
qed

lemma ucast_i32_0: "(ucast (n :: i32) :: usize) = 0 \<longleftrightarrow> n = 0"
  by (metis unat_ucast_i32 unsigned_0 unsigned_eq_0_iff)

interpretation body_source: byte_source body_read body_contract
proof unfold_locales
  fix k :: "('w, 'x) sce_sys_scheme" and h buf w r buf' w'
  show "length buf' = length buf" if "body_read k h buf w = (r, buf', w')"
    using that by (auto simp: body_read_def split: prod.splits)
  fix pend n
  assume c: "body_contract k h pend"
  have read: "if sint m < 0 then pend w' = pend w
      else unat m = length stored \<and> length stored \<le> len \<and> pend w = stored @ pend w' \<and>
           (stored = [] \<longrightarrow> len = 0 \<or> pend w = [])"
    if "sce_http2_read_data k h len w = ((m, stored), w')" for len m stored
    using c that unfolding body_contract_def by blast
  show "unat n \<le> length buf \<and> pend w = take (unat n) buf' @ pend w'"
    if "body_read k h buf w = (Inr n, buf', w')"
    using that read by (fastforce simp: body_read_def unat_ucast_i32 split: prod.splits if_splits)
  show "pend w = []" if "body_read k h buf w = (Inr 0, buf', w')" "buf \<noteq> []"
    using that read by (fastforce simp: body_read_def ucast_i32_0 split: prod.splits if_splits)
  show "pend w' = pend w" if "body_read k h buf w = (Inl e, buf', w')" for e
    using that read by (fastforce simp: body_read_def split: prod.splits if_splits)
qed

text \<open>The draining loop is the reference loop of theory \<open>Streams\<close>, with the buffer as the result.\<close>

definition with_buffer ::
  "(failure + unit) \<times> u8 list \<times> 'w \<Rightarrow> (failure + u8 list) \<times> 'w" where
  "with_buffer x = (case x of (Inl e, _, w) \<Rightarrow> (Inl e, w) | (Inr _, buf, w) \<Rightarrow> (Inr buf, w))"

lemma drain_body_from_drain:
  assumes "drain (body_read K req_id) chunk acc w = Some y"
  shows "drain_body K req_id chunk acc w = Some (with_buffer y)"
proof -
  have "body_read K req_id = body_read K req_id \<longrightarrow> drain_body K req_id chunk acc w = Some (with_buffer y)"
  proof (rule drain.raw_induct [where P = "\<lambda>rd chunk acc w y. rd = body_read K req_id \<longrightarrow>
        drain_body K req_id chunk acc w = Some (with_buffer y)", OF _ assms], intro impI)
    fix loop :: "(u8 list \<Rightarrow> 'a \<Rightarrow> usize result \<times> u8 list \<times> 'a) \<Rightarrow> u8 list \<Rightarrow> u8 list \<Rightarrow> 'a \<Rightarrow>
        ((failure + unit) \<times> u8 list \<times> 'a) option" and rd chunk acc w y
    assume IH: "\<And>rd chunk acc w y. loop rd chunk acc w = Some y \<Longrightarrow> rd = body_read K req_id \<longrightarrow>
        drain_body K req_id chunk acc w = Some (with_buffer y)"
      and eq: "(case rd chunk w of
          (Inl e, chunk', w1) \<Rightarrow> Some (Inl (Fail e), acc, w1)
        | (Inr n, chunk', w1) \<Rightarrow>
            if n = 0 then Some (Inr (), acc, w1)
            else (case slice_to (unat n) chunk' of
                    None \<Rightarrow> Some (Inl Panic, acc, w1)
                  | Some got \<Rightarrow> loop rd chunk' (acc @ got) w1)) = Some y"
      and rd: "rd = body_read K req_id"
    obtain m stored w1 where c: "sce_http2_read_data K req_id (length chunk) w = ((m, stored), w1)"
      by (metis prod.exhaust)
    show "drain_body K req_id chunk acc w = Some (with_buffer y)"
    proof (cases "sint m < 0 \<or> m = 0")
      case True
      with eq rd c show ?thesis
        by (subst drain_body.simps) (auto simp: body_read_def with_buffer_def Let_def)
    next
      case False
      with eq rd c IH show ?thesis
        by (subst drain_body.simps)
           (auto simp: body_read_def with_buffer_def Let_def unat_ucast_i32 ucast_i32_0
             split: option.splits)
    qed
  qed
  then show ?thesis by simp
qed

section \<open>What is alive when\<close>

text \<open>
  The library's resources as a stack: making one pushes it, and only the one made last may be
  freed. \<open>traced_sce K\<close> is \<open>K\<close> with a record of what it made and was told to free.
\<close>

datatype sce_resource =
  NetPool i32 | SslContext i32 | Http2Context i32 | Template i32 | Request i32

datatype sce_event = Made sce_resource | Freed sce_resource

fun stack_run :: "sce_resource list \<Rightarrow> sce_event list \<Rightarrow> sce_resource list option" where
  "stack_run st [] = Some st"
| "stack_run st (Made r # es) = stack_run (r # st) es"
| "stack_run [] (Freed r # es) = None"
| "stack_run (x # st) (Freed r # es) = (if x = r then stack_run st es else None)"

definition client_resources :: "client \<Rightarrow> sce_resource list" where
  "client_resources c =
     [Template (tmpl_id c), Http2Context (lib_ctx_id c), SslContext (ssl_ctx_id c), NetPool (net_mem_id c)]"

definition made :: "(i32 \<Rightarrow> sce_resource) \<Rightarrow> ('w \<Rightarrow> i32 \<times> 'w) \<Rightarrow> 'w \<times> sce_event list \<Rightarrow>
    i32 \<times> 'w \<times> sce_event list" where
  "made R f wt = (case f (fst wt) of (r, w') \<Rightarrow>
     (r, w', snd wt @ (if sint r < 0 then [] else [Made (R r)])))"

definition freed :: "sce_resource \<Rightarrow> ('w \<Rightarrow> i32 \<times> 'w) \<Rightarrow> 'w \<times> sce_event list \<Rightarrow>
    i32 \<times> 'w \<times> sce_event list" where
  "freed x f wt = (case f (fst wt) of (r, w') \<Rightarrow> (r, w', snd wt @ [Freed x]))"

definition unseen :: "('w \<Rightarrow> 'r \<times> 'w) \<Rightarrow> 'w \<times> sce_event list \<Rightarrow> 'r \<times> 'w \<times> sce_event list" where
  "unseen f wt = (case f (fst wt) of (r, w') \<Rightarrow> (r, w', snd wt))"

definition traced_sce :: "('w, 'x) sce_sys_scheme \<Rightarrow> ('w \<times> sce_event list) sce_sys" where
  "traced_sce K =
     \<lparr>sce_net_init = unseen (sce_net_init K),
      sce_net_pool_create = (\<lambda>n s f. made NetPool (sce_net_pool_create K n s f)),
      sce_net_pool_destroy = (\<lambda>i. freed (NetPool i) (sce_net_pool_destroy K i)),
      sce_ssl_init = (\<lambda>s. made SslContext (sce_ssl_init K s)),
      sce_ssl_term = (\<lambda>i. freed (SslContext i) (sce_ssl_term K i)),
      sce_http2_init = (\<lambda>n s p m. made Http2Context (sce_http2_init K n s p m)),
      sce_http2_term = (\<lambda>i. freed (Http2Context i) (sce_http2_term K i)),
      sce_http2_create_template = (\<lambda>l a r e. made Template (sce_http2_create_template K l a r e)),
      sce_http2_delete_template = (\<lambda>i. freed (Template i) (sce_http2_delete_template K i)),
      sce_http2_create_request = (\<lambda>t m u n. made Request (sce_http2_create_request K t m u n)),
      sce_http2_delete_request = (\<lambda>i. freed (Request i) (sce_http2_delete_request K i)),
      sce_http2_send_request = (\<lambda>i d n. unseen (sce_http2_send_request K i d n)),
      sce_http2_get_status_code = (\<lambda>i. unseen (sce_http2_get_status_code K i)),
      sce_http2_read_data = (\<lambda>i n. unseen (sce_http2_read_data K i n))\<rparr>"

lemma traced_sce_calls [trace_simps]:
  "sce_net_init (traced_sce K) = unseen (sce_net_init K)"
  "sce_net_pool_create (traced_sce K) n s f = made NetPool (sce_net_pool_create K n s f)"
  "sce_net_pool_destroy (traced_sce K) i = freed (NetPool i) (sce_net_pool_destroy K i)"
  "sce_ssl_init (traced_sce K) b = made SslContext (sce_ssl_init K b)"
  "sce_ssl_term (traced_sce K) i = freed (SslContext i) (sce_ssl_term K i)"
  "sce_http2_init (traced_sce K) i j b m = made Http2Context (sce_http2_init K i j b m)"
  "sce_http2_term (traced_sce K) i = freed (Http2Context i) (sce_http2_term K i)"
  "sce_http2_create_template (traced_sce K) i a r e = made Template (sce_http2_create_template K i a r e)"
  "sce_http2_delete_template (traced_sce K) i = freed (Template i) (sce_http2_delete_template K i)"
  "sce_http2_create_request (traced_sce K) i a u b = made Request (sce_http2_create_request K i a u b)"
  "sce_http2_delete_request (traced_sce K) i = freed (Request i) (sce_http2_delete_request K i)"
  "sce_http2_send_request (traced_sce K) i d b = unseen (sce_http2_send_request K i d b)"
  "sce_http2_get_status_code (traced_sce K) i = unseen (sce_http2_get_status_code K i)"
  "sce_http2_read_data (traced_sce K) i len = unseen (sce_http2_read_data K i len)"
  by (simp_all add: traced_sce_def)

text \<open>
  C22: a client is made whole or not at all. On success its four resources are alive, made in
  the order pool, SSL, HTTP/2, template; on every failure path what was made before the
  failing call has been freed again, last made first, and nothing else was freed. Dropping a
  client frees its four resources, last made first.
\<close>

theorem client_new_unwinds:
  "(case client_new (traced_sce K) agent (w, t) of (r, w', t') \<Rightarrow>
      client_new K agent w = (r, w') \<and>
      (\<exists>es. t' = t @ es \<and>
        stack_run st es = Some (case r of Inl _ \<Rightarrow> st | Inr c \<Rightarrow> client_resources c @ st))) \<and>
   (case drop_client (traced_sce K) c (w, t) of (w', t') \<Rightarrow>
      drop_client K c w = w' \<and>
      (\<exists>es. t' = t @ es \<and> stack_run (client_resources c @ st) es = Some st))"
proof
  show "case client_new (traced_sce K) agent (w, t) of (r, w', t') \<Rightarrow>
      client_new K agent w = (r, w') \<and>
      (\<exists>es. t' = t @ es \<and>
        stack_run st es = Some (case r of Inl _ \<Rightarrow> st | Inr c \<Rightarrow> client_resources c @ st))"
    by (cases "cstr agent")
       (auto simp: client_new_def trace_simps made_def freed_def unseen_def client_resources_def
         split: prod.splits)
  show "case drop_client (traced_sce K) c (w, t) of (w', t') \<Rightarrow>
      drop_client K c w = w' \<and>
      (\<exists>es. t' = t @ es \<and> stack_run (client_resources c @ st) es = Some st)"
    by (auto simp: drop_client_def Let_def trace_simps freed_def client_resources_def split: prod.splits)
qed

lemma body_read_unseen: "body_read (traced_sce K) req_id buf wt = (r, buf', wt') \<Longrightarrow> snd wt' = snd wt"
  by (auto simp: body_read_def trace_simps unseen_def split: prod.splits)

lemma body_contract_traced:
  "body_contract K req_id pend \<Longrightarrow> body_contract (traced_sce K) req_id (\<lambda>wt. pend (fst wt))"
  by (fastforce simp: body_contract_def trace_simps unseen_def split: prod.splits)

lemma drain_body_total:
  assumes c: "body_contract K req_id pend" and "chunk \<noteq> []"
  shows "\<exists>r w'. drain_body (traced_sce K) req_id chunk [] (w, t) = Some (r, w', t) \<and> r \<noteq> Inl Panic \<and>
    (\<forall>buf. r = Inr buf \<longrightarrow> buf = pend w)"
proof -
  have c': "body_contract (traced_sce K) req_id (\<lambda>wt. pend (fst wt))"
    using c by (rule body_contract_traced)
  obtain r got wt' where d: "drain (body_read (traced_sce K) req_id) chunk [] (w, t) = Some (r, got, wt')"
    and r: "r \<noteq> Inl Panic" "pend w = got @ pend (fst wt')" "r = Inr () \<longrightarrow> pend (fst wt') = []"
    using body_source.drain_total [OF c' \<open>chunk \<noteq> []\<close>, of "[]" "(w, t)"] by auto
  have "snd wt' = t"
    using drain_keeps [of "body_read (traced_sce K) req_id" snd, OF body_read_unseen d] by simp
  moreover have "drain_body (traced_sce K) req_id chunk [] (w, t) = Some (with_buffer (r, got, wt'))"
    using d by (rule drain_body_from_drain)
  ultimately show ?thesis using r
    by (cases wt'; cases r) (auto simp: with_buffer_def)
qed

lemma run_request_total:
  assumes c: "body_contract K req_id pend"
  shows "\<exists>r w'. run_request (traced_sce K) req_id body (w, t) = Some (r, w', t) \<and> r \<noteq> Inl Panic \<and>
    (\<forall>resp. r = Inr resp \<longrightarrow>
      (\<exists>w1 status w2.
        sce_http2_send_request K req_id (if body = [] then None else Some body) (of_nat (length body)) w = (0, w1) \<and>
        sce_http2_get_status_code K req_id w1 = ((0, status), w2) \<and>
        cr_status resp = ucast status \<and> cr_body resp = pend w2))"
proof -
  obtain rc w1 where s: "sce_http2_send_request K req_id (if body = [] then None else Some body)
      (of_nat (length body)) w = (rc, w1)" by (metis prod.exhaust)
  obtain rc' status w2 where g: "sce_http2_get_status_code K req_id w1 = ((rc', status), w2)"
    by (metis prod.exhaust)
  have "replicate SCE_READ_CHUNK 0 \<noteq> ([] :: u8 list)" by (simp add: SCE_READ_CHUNK_def)
  from drain_body_total [OF c this, of w2 t] obtain r w3 where
    "drain_body (traced_sce K) req_id (replicate SCE_READ_CHUNK 0) [] (w2, t) = Some (r, w3, t)"
    "r \<noteq> Inl Panic" "\<forall>buf. r = Inr buf \<longrightarrow> buf = pend w2" by blast
  with s g show ?thesis
    by (cases "body = []"; cases r)
       (auto simp: run_request_def trace_simps unseen_def)
qed

text \<open>
  C21: for any client, method, URL and body, over a library whose reads hand out a response body
  in pieces of any size: a request returns and does not panic; whatever happens, the request
  handle it made is deleted again and nothing else is made or freed; and when it succeeds, the
  send and the status query did, the status is the low 16 bits of theirs, and the body is
  everything the library had for this request.
\<close>

theorem request_returns_the_body:
  assumes "\<And>req_id. body_contract K req_id (pend req_id)"
  shows "\<exists>r w' es. client_request (traced_sce K) c method url body (w, t) = Some (r, w', t @ es) \<and>
    r \<noteq> Inl Panic \<and> stack_run st es = Some st \<and>
    (\<forall>resp. r = Inr resp \<longrightarrow>
      (\<exists>req_id w1 w2 status w3.
        sce_http2_create_request K (tmpl_id c) method url (of_nat (length body)) w = (req_id, w1) \<and>
        sce_http2_send_request K req_id (if body = [] then None else Some body) (of_nat (length body)) w1 = (0, w2) \<and>
        sce_http2_get_status_code K req_id w2 = ((0, status), w3) \<and>
        cr_status resp = ucast status \<and> cr_body resp = pend req_id w3))"
proof (cases "cstr method = Inr method \<and> cstr url = Inr url")
  case False
  then obtain e where "client_request (traced_sce K) c method url body (w, t) = Some (Inl (Fail e), w, t)"
    by (auto simp: client_request_def cstr_def split: if_splits)
  then show ?thesis by auto
next
  case True
  obtain req_id w1 where cr: "sce_http2_create_request K (tmpl_id c) method url (of_nat (length body)) w = (req_id, w1)"
    by (metis prod.exhaust)
  obtain r w2 where run: "run_request (traced_sce K) req_id body (w1, t @ [Made (Request req_id)]) =
      Some (r, w2, t @ [Made (Request req_id)])" and r: "r \<noteq> Inl Panic"
    and ok: "\<forall>resp. r = Inr resp \<longrightarrow>
      (\<exists>w2 status w3.
        sce_http2_send_request K req_id (if body = [] then None else Some body) (of_nat (length body)) w1 = (0, w2) \<and>
        sce_http2_get_status_code K req_id w2 = ((0, status), w3) \<and>
        cr_status resp = ucast status \<and> cr_body resp = pend req_id w3)"
    using run_request_total [OF assms, of req_id body w1 "t @ [Made (Request req_id)]"] by blast
  obtain del w3 where del: "sce_http2_delete_request K req_id w2 = (del, w3)" by (metis prod.exhaust)
  show ?thesis
  proof (cases "sint req_id < 0")
    case True
    with \<open>cstr method = Inr method \<and> cstr url = Inr url\<close> cr show ?thesis
      by (intro exI [of _ "Inl (Fail (error_sce ''sceHttp2CreateRequestWithURL'' req_id))"]
            exI [of _ w1] exI [of _ "[]"]) (simp add: client_request_def trace_simps made_def)
  next
    case False
    let ?r = "case r of Inl e \<Rightarrow> Inl e | Inr resp \<Rightarrow>
      if del \<noteq> 0 then Inl (Fail (error_sce ''sceHttp2DeleteRequest'' del)) else Inr resp"
    have "client_request (traced_sce K) c method url body (w, t) =
        Some (?r, w3, t @ [Made (Request req_id), Freed (Request req_id)])"
      using True False cr run r del
      by (auto simp: client_request_def trace_simps made_def freed_def split: sum.splits failure.splits)
    with r ok cr show ?thesis
      by (intro exI [of _ ?r] exI [of _ w3]
            exI [of _ "[Made (Request req_id), Freed (Request req_id)]"])
         (auto split: sum.splits)
  qed
qed

text \<open>
  A small library for the witness: the state is the body left over, handed out two bytes at
  a time.
\<close>

definition tiny_sce :: "u8 list sce_sys" where
  "tiny_sce =
     \<lparr>sce_net_init = (\<lambda>w. (0, w)),
      sce_net_pool_create = (\<lambda>_ _ _ w. (1, w)),
      sce_net_pool_destroy = (\<lambda>_ w. (0, w)),
      sce_ssl_init = (\<lambda>_ w. (2, w)),
      sce_ssl_term = (\<lambda>_ w. (0, w)),
      sce_http2_init = (\<lambda>_ _ _ _ w. (3, w)),
      sce_http2_term = (\<lambda>_ w. (0, w)),
      sce_http2_create_template = (\<lambda>_ _ _ _ w. (4, w)),
      sce_http2_delete_template = (\<lambda>_ w. (0, w)),
      sce_http2_create_request = (\<lambda>_ _ _ _ w. (5, w)),
      sce_http2_delete_request = (\<lambda>_ w. (0, w)),
      sce_http2_send_request = (\<lambda>_ _ _ w. (0, w)),
      sce_http2_get_status_code = (\<lambda>_ w. ((0, 200), w)),
      sce_http2_read_data = (\<lambda>_ len w. ((of_nat (min 2 (min len (length w))), take (min 2 len) w),
                                        drop (min 2 len) w))\<rparr>"

lemma tiny_sce_reads: "body_contract tiny_sce req_id id"
proof -
  have len: "unat (of_nat (min 2 n) :: i32) = min 2 n" for n :: nat
    by (simp add: unat_of_nat min_def)
  have pos: "\<not> sint (of_nat (min 2 n) :: i32) < 0" for n :: nat
    by (cases "n = 0"; cases "n = 1") (auto simp: min_def)
  have "\<not> sint n < 0 \<and> unat n = length stored \<and> length stored \<le> l \<and> w = stored @ w' \<and>
      (stored = [] \<longrightarrow> l = 0 \<or> w = [])"
    if "sce_http2_read_data tiny_sce req_id l w = ((n, stored), w')" for l w n stored w'
  proof -
    from that have n: "n = of_nat (min 2 (min l (length w)))"
      and s: "stored = take (min 2 l) w" and w': "w' = drop (min 2 l) w"
      by (simp_all add: tiny_sce_def)
    show ?thesis using len pos by (auto simp: n s w')
  qed
  then show ?thesis by (auto simp: body_contract_def)
qed

theorem request_returns_the_body_witness:
  "\<exists>r w' es. client_request (traced_sce tiny_sce) \<lparr>net_mem_id = 1, ssl_ctx_id = 2, lib_ctx_id = 3, tmpl_id = 4\<rparr>
      ''GET'' ''http://a/'' [] ([7, 8, 9], []) = Some (r, w', [] @ es) \<and> r \<noteq> Inl Panic \<and>
    stack_run [] es = Some [] \<and>
    (\<forall>resp. r = Inr resp \<longrightarrow>
      (\<exists>req_id w1 w2 status w3.
        sce_http2_create_request tiny_sce (tmpl_id \<lparr>net_mem_id = 1, ssl_ctx_id = 2, lib_ctx_id = 3, tmpl_id = 4\<rparr>)
          ''GET'' ''http://a/'' (of_nat (length ([] :: u8 list))) [7, 8, 9] = (req_id, w1) \<and>
        sce_http2_send_request tiny_sce req_id (if ([] :: u8 list) = [] then None else Some [])
          (of_nat (length ([] :: u8 list))) w1 = (0, w2) \<and>
        sce_http2_get_status_code tiny_sce req_id w2 = ((0, status), w3) \<and>
        cr_status resp = ucast status \<and> cr_body resp = id w3))"
  by (rule request_returns_the_body [of tiny_sce "\<lambda>_. id", OF tiny_sce_reads])

end
