(* ===== verification/Build_Script.thy ===== *)
theory Build_Script
  imports Rust_Str
begin

text \<open>
  \<^verbatim>\<open>crates/ps5-sys/build.rs\<close>: the build script that has bindgen generate the raw bindings, one
  file per enabled domain, from the SDK's headers alone. The environment, the file system as the
  script asks it, the clang command and bindgen are the fields of the parameter record
  \<open>build_sys\<close>; what the script does is the lines it prints for cargo and the files it has
  bindgen write. A panic is \<open>Inl\<close> of its message.
\<close>

section \<open>The parameters of the build\<close>

text \<open>A configured bindgen builder is the list of the calls that configured it.\<close>

datatype bindgen_call =
    Header string
  | ClangArgs "string list"
  | UseCore
  | GenerateComments bool
  | LayoutTests bool
  | CargoCallbacks
  | AllowlistFile string
  | AllowlistFunction string
  | AllowlistVar string
  | AllowlistType string

record build_sys =
  env_var :: "string \<Rightarrow> string option"
  is_file :: "string \<Rightarrow> bool"
  canonicalize :: "string \<Rightarrow> string option"
  run_command :: "string \<Rightarrow> string list \<Rightarrow> (bool \<times> u8 list) option"
    \<comment> \<open>exit success and standard output; \<open>None\<close> when it cannot be run\<close>
  bindgen_generate :: "bindgen_call list \<Rightarrow> string option"  \<comment> \<open>the error, if any\<close>
  bindgen_write :: "string \<Rightarrow> string option"                \<comment> \<open>the error, if any\<close>

record build =
  printed :: "string list"
  generated :: "(string \<times> bindgen_call list) list"   \<comment> \<open>output path and configuration\<close>

definition println :: "string \<Rightarrow> build \<Rightarrow> build" where
  "println line b = b\<lparr>printed := printed b @ [line]\<rparr>"

text \<open>\<^verbatim>\<open>PathBuf::join\<close> on Unix: an absolute path replaces, another is appended after a separator.\<close>

definition join :: "string \<Rightarrow> string \<Rightarrow> string" where
  "join p q =
     (if q \<noteq> [] \<and> hd q = CHR ''/'' then q
      else if p \<noteq> [] \<and> last p \<noteq> CHR ''/'' then p @ ''/'' @ q
      else p @ q)"

section \<open>The script\<close>

definition TARGET :: string where
  "TARGET = ''x86_64-unknown-freebsd''"

datatype sdk = Installed string | Source string

text \<open>\<^verbatim>\<open>to_uppercase\<close>, on the ASCII names it is used with.\<close>

definition ascii_upper :: "char \<Rightarrow> char" where
  "ascii_upper c =
     (let n = (of_char c :: nat) in if 97 \<le> n \<and> n \<le> 122 then char_of (n - 32) else c)"

definition feature :: "build_sys \<Rightarrow> string \<Rightarrow> bool" where
  "feature S name = (env_var S (''CARGO_FEATURE_'' @ map ascii_upper name) \<noteq> None)"

definition generate ::
  "build_sys \<Rightarrow> string list \<Rightarrow> string \<Rightarrow> string \<Rightarrow> bindgen_call list \<Rightarrow> build \<Rightarrow> (string + unit) \<times> build" where
  "generate S base header out configure b =
     (let builder = [Header header, ClangArgs base, UseCore, GenerateComments True,
                     LayoutTests False, CargoCallbacks] @ configure
      in case bindgen_generate S builder of
           Some e \<Rightarrow> (Inl (''bindgen failed for '' @ header @ '': '' @ e), b)
         | None \<Rightarrow>
             (case bindgen_write S out of
                Some e \<Rightarrow> (Inl (''failed to write '' @ out @ '': '' @ e), b)
              | None \<Rightarrow> (Inr (), b\<lparr>generated := generated b @ [(out, builder)]\<rparr>)))"

definition locate_sdk :: "build_sys \<Rightarrow> build \<Rightarrow> (string + sdk) \<times> build" where
  "locate_sdk S b =
     (let in_tree = (\<lambda>b.
        case env_var S ''CARGO_MANIFEST_DIR'' of
          None \<Rightarrow> (Inl ''called `Result::unwrap()` on an `Err` value: NotPresent'', b)
        | Some manifest \<Rightarrow>
            let sdk_src = (case canonicalize S (join manifest ''../../sdk'') of
                             Some p \<Rightarrow> p
                           | None \<Rightarrow> join manifest ''../../sdk'')
            in if is_file S (join sdk_src ''include/ps5/payload.h'') then (Inr (Source sdk_src), b)
               else (Inl (''Could not locate the ps5-payload-sdk.'' @ [LF] @
                          ''Set PS5_PAYLOAD_SDK to an installed SDK (with target/include/ps5/payload.h),'' @ [LF] @
                          ''or initialize the submodule:  git submodule update --init sdk'' @ [LF] @
                          ''(looked for installed SDK via $PS5_PAYLOAD_SDK and source at '' @ sdk_src @ '')''), b))
      in case env_var S ''PS5_PAYLOAD_SDK'' of
           None \<Rightarrow> in_tree b
         | Some root \<Rightarrow>
             if is_file S (join root ''target/include/ps5/payload.h'') then (Inr (Installed root), b)
             else in_tree (println (''cargo:warning=PS5_PAYLOAD_SDK='' @ root @
               '' set but target/include/ps5/payload.h not found there; falling back to the in-tree sdk/ submodule.'') b))"

definition clang_resource_dir :: "build_sys \<Rightarrow> string option" where
  "clang_resource_dir S =
     (let clang = (case env_var S ''CLANG_PATH'' of Some c \<Rightarrow> c | None \<Rightarrow> ''clang'')
      in case run_command S clang [''-print-resource-dir''] of
           None \<Rightarrow> None
         | Some (success, stdout) \<Rightarrow>
             if \<not> success then None
             else (case from_utf8 stdout of
                     None \<Rightarrow> None
                   | Some out \<Rightarrow>
                       let dir = trim out
                       in if is_file S (join dir ''include/stddef.h'') then Some dir else None))"

text \<open>The message has an em dash, as its three UTF-8 bytes.\<close>

definition clang_args :: "build_sys \<Rightarrow> sdk \<Rightarrow> build \<Rightarrow> string list \<times> build" where
  "clang_args S sdk b =
     (let args = [''-target'', TARGET, ''-ffreestanding''] in
      case (case clang_resource_dir S of
              Some res \<Rightarrow> (args @ [''-nostdinc'', ''-isystem'', res @ ''/include''], b)
            | None \<Rightarrow> (args, println (''cargo:warning=could not determine clang resource dir; proceeding '' @
                ''without -nostdinc '' @ [CHR 0xE2, CHR 0x80, CHR 0x94] @
                '' host system headers may leak into the bindings.'') b))
      of (args, b) \<Rightarrow>
        (case sdk of
           Installed root \<Rightarrow> (args @ [''-isystem'', join root ''target/include''], b)
         | Source root \<Rightarrow>
             (args @ [''-isystem'', join root ''include/freebsd'', ''-I'', join root ''include''], b)))"

text \<open>The allowlists of the domains; \<open>dot_h\<close> is the end \<^verbatim>\<open>\.h\<close> of a pattern.\<close>

abbreviation dot_h :: string where "dot_h \<equiv> [CHR 0x5C, CHR ''.'', CHR ''h'']"

definition configure_ps5 :: "bindgen_call list" where
  "configure_ps5 =
     [AllowlistFile (''.*/ps5/.*'' @ dot_h),
      AllowlistFunction ''(kernel|klog|mdbg|payload|nid)_.*'',
      AllowlistVar ''KERNEL_.*'',
      AllowlistType ''payload_args.*'',
      AllowlistFunction ''__error'',
      AllowlistFunction ''strerror'',
      AllowlistVar ''E[A-Z0-9]+'']"

definition configure_fs :: "bindgen_call list" where
  "configure_fs =
     [AllowlistFile (''.*/(fcntl|unistd|dirent|stdio)'' @ dot_h),
      AllowlistFile (''.*/sys/(stat|mman|uio|types)'' @ dot_h),
      AllowlistVar ''(O|S|F|SEEK|PROT|MAP|MS|AT)_.*'']"

definition configure_net :: "bindgen_call list" where
  "configure_net =
     [AllowlistFile (''.*/sys/(socket|select|ioctl|ioccom)'' @ dot_h),
      AllowlistFile (''.*/netdb'' @ dot_h),
      AllowlistFile (''.*/netinet/(in|tcp)'' @ dot_h),
      AllowlistFile (''.*/netinet6/.*'' @ dot_h),
      AllowlistFile (''.*/arpa/inet'' @ dot_h),
      AllowlistFile (''.*/net/if'' @ dot_h),
      AllowlistFile (''.*/(poll'' @ dot_h @ ''|sys/poll'' @ dot_h @ '')''),
      AllowlistFile (''.*/fcntl'' @ dot_h),
      AllowlistFunction ''close'',
      AllowlistVar ''(AF|PF|SOCK|SOL|SO|IPPROTO|IP|IPV6|TCP|MSG|SHUT|INADDR|IN6ADDR|POLL|FIONBIO|FD|F|O|AI|NI)_.*'']"

definition configure_thread :: "bindgen_call list" where
  "configure_thread =
     [AllowlistFile (''.*/(pthread|pthread_np|semaphore|threads)'' @ dot_h),
      AllowlistFile (''.*/(sched'' @ dot_h @ ''|sys/sched'' @ dot_h @ '')''),
      AllowlistVar ''(PTHREAD|SCHED|SEM|ONCE|TSS|MTX|THRD)_.*'']"

text \<open>A block that runs only when its feature is enabled, and the sequence of two.\<close>

definition when_feature ::
  "build_sys \<Rightarrow> string \<Rightarrow> (build \<Rightarrow> (string + unit) \<times> build) \<Rightarrow> build \<Rightarrow> (string + unit) \<times> build" where
  "when_feature S name act b = (if feature S name then act b else (Inr (), b))"

definition build_main :: "build_sys \<Rightarrow> build \<Rightarrow> (string + unit) \<times> build" where
  "build_main S b =
     (let b = println ''cargo:rerun-if-changed=build.rs'' b;
          b = println ''cargo:rerun-if-env-changed=PS5_PAYLOAD_SDK'' b;
          b = fold (\<lambda>h. println (''cargo:rerun-if-changed=headers/'' @ h @ ''.h''))
                [''ps5'', ''fs'', ''net'', ''thread''] b
      in and_then (locate_sdk S b) (\<lambda>sdk b.
         case clang_args S sdk b of (base, b) \<Rightarrow>
         (case env_var S ''OUT_DIR'' of
            None \<Rightarrow> (Inl ''OUT_DIR not set: NotPresent'', b)
          | Some out \<Rightarrow>
              and_then (generate S base ''headers/ps5.h'' (join out ''ps5_bindings.rs'') configure_ps5 b) (\<lambda>_ b.
              and_then (when_feature S ''fs''
                (generate S base ''headers/fs.h'' (join out ''fs_bindings.rs'') configure_fs) b) (\<lambda>_ b.
              and_then (when_feature S ''net''
                (generate S base ''headers/net.h'' (join out ''net_bindings.rs'') configure_net) b) (\<lambda>_ b.
              and_then (when_feature S ''thread''
                (generate S base ''headers/thread.h'' (join out ''thread_bindings.rs'') configure_thread) b) (\<lambda>_ b.
              when_feature S ''http'' (\<lambda>b.
                (Inr (), println ''cargo:rustc-link-lib=SceNet''
                   (println ''cargo:rustc-link-lib=SceSsl'' (println ''cargo:rustc-link-lib=SceHttp2'' b)))) b)))))))"

section \<open>Which bindings are generated\<close>

definition bindings_of ::
  "string list \<Rightarrow> string \<Rightarrow> string \<times> bindgen_call list \<Rightarrow> string \<times> bindgen_call list" where
  "bindings_of base out d =
     (join out (fst d @ ''_bindings.rs''),
      [Header (''headers/'' @ fst d @ ''.h''), ClangArgs base, UseCore, GenerateComments True,
       LayoutTests False, CargoCallbacks] @ snd d)"

definition enabled_domains :: "build_sys \<Rightarrow> (string \<times> bindgen_call list) list" where
  "enabled_domains S = (''ps5'', configure_ps5) #
     filter (\<lambda>d. feature S (fst d))
       [(''fs'', configure_fs), (''net'', configure_net), (''thread'', configure_thread)]"

definition link_lines :: "string list \<Rightarrow> string list" where
  "link_lines = filter (\<lambda>l. take 21 l = ''cargo:rustc-link-lib='')"

text \<open>
  A stage of the script writes its outputs in order, all of them unless it panics, and prints
  nothing.
\<close>

definition stage :: "(build \<Rightarrow> (string + unit) \<times> build) \<Rightarrow> (string \<times> bindgen_call list) list \<Rightarrow> bool" where
  "stage act outs \<longleftrightarrow>
     (\<forall>b r b'. act b = (r, b') \<longrightarrow> printed b' = printed b \<and>
        (case r of Inr _ \<Rightarrow> generated b' = generated b @ outs
         | Inl _ \<Rightarrow> \<exists>n. generated b' = generated b @ take n outs))"

lemma stage_generate:
  "stage (generate S base (''headers/'' @ d @ ''.h'') (join out (d @ ''_bindings.rs'')) conf)
     [bindings_of base out (d, conf)]"
  by (auto simp: stage_def generate_def bindings_of_def Let_def intro: exI [of _ 0] split: option.splits)

lemma stage_when_feature:
  "stage act outs \<Longrightarrow> stage (when_feature S d act) (if feature S d then outs else [])"
  by (auto simp: stage_def when_feature_def split: sum.splits)

lemma and_then_assoc: "and_then (and_then m f) g = and_then m (\<lambda>x w. and_then (f x w) g)"
  by (cases m; cases "fst m") auto

lemma stage_then:
  assumes "stage f xs" and "stage g ys"
  shows "stage (\<lambda>b. and_then (f b) (\<lambda>_. g)) (xs @ ys)"
  unfolding stage_def
proof (intro allI impI)
  fix b r b'
  assume run: "and_then (f b) (\<lambda>_. g) = (r, b')"
  obtain r1 b1 where f: "f b = (r1, b1)" by (metis prod.exhaust)
  have 1: "printed b1 = printed b"
    "case r1 of Inr _ \<Rightarrow> generated b1 = generated b @ xs | Inl _ \<Rightarrow> \<exists>n. generated b1 = generated b @ take n xs"
    using assms(1) f unfolding stage_def by blast+
  show "printed b' = printed b \<and>
      (case r of Inr _ \<Rightarrow> generated b' = generated b @ xs @ ys
       | Inl _ \<Rightarrow> \<exists>n. generated b' = generated b @ take n (xs @ ys))"
  proof (cases r1)
    case (Inl e)
    with 1 f run obtain n where "generated b' = generated b @ take n xs" "r = Inl e" "printed b' = printed b"
      by auto
    moreover have "take n xs = take (min n (length xs)) (xs @ ys)" by (simp add: min_def)
    ultimately show ?thesis by (simp only: sum.case) blast
  next
    case (Inr u)
    with f run have "g b1 = (r, b')" by simp
    with assms(2) have 2: "printed b' = printed b1"
      "case r of Inr _ \<Rightarrow> generated b' = generated b1 @ ys | Inl _ \<Rightarrow> \<exists>n. generated b' = generated b1 @ take n ys"
      unfolding stage_def by blast+
    show ?thesis
    proof (cases r)
      case Inl': (Inl e)
      with 2 obtain n where "generated b' = generated b1 @ take n ys" by auto
      with 1 2 Inr Inl' show ?thesis by (auto intro: exI [of _ "length xs + n"])
    next
      case Inr': (Inr v)
      with 1 2 Inr show ?thesis by simp
    qed
  qed
qed

definition generate_all ::
  "build_sys \<Rightarrow> string list \<Rightarrow> string \<Rightarrow> build \<Rightarrow> (string + unit) \<times> build" where
  "generate_all S base out = (\<lambda>b.
     and_then (generate S base ''headers/ps5.h'' (join out ''ps5_bindings.rs'') configure_ps5 b) (\<lambda>_ b.
     and_then (when_feature S ''fs''
       (generate S base ''headers/fs.h'' (join out ''fs_bindings.rs'') configure_fs) b) (\<lambda>_ b.
     and_then (when_feature S ''net''
       (generate S base ''headers/net.h'' (join out ''net_bindings.rs'') configure_net) b) (\<lambda>_.
     when_feature S ''thread''
       (generate S base ''headers/thread.h'' (join out ''thread_bindings.rs'') configure_thread)))))"

lemma stage_generate_all:
  "stage (generate_all S base out) (map (bindings_of base out) (enabled_domains S))"
proof -
  note gen = stage_generate [where S = S and base = base and out = out]
  have "stage (generate_all S base out)
      ([bindings_of base out (''ps5'', configure_ps5)] @
       (if feature S ''fs'' then [bindings_of base out (''fs'', configure_fs)] else []) @
       (if feature S ''net'' then [bindings_of base out (''net'', configure_net)] else []) @
       (if feature S ''thread'' then [bindings_of base out (''thread'', configure_thread)] else []))"
    unfolding generate_all_def
    using gen [of "''ps5''" configure_ps5] gen [of "''fs''" configure_fs]
      gen [of "''net''" configure_net] gen [of "''thread''" configure_thread]
    by (intro stage_then stage_when_feature) simp_all
  then show ?thesis by (auto simp: enabled_domains_def split: if_splits)
qed

section \<open>Where the headers come from\<close>

fun include_dirs :: "string list \<Rightarrow> string list" where
  "include_dirs (a # d # args) =
     (if a = ''-isystem'' \<or> a = ''-I'' then d # include_dirs args else include_dirs (d # args))"
| "include_dirs _ = []"

lemma join_join:
  "q \<noteq> [] \<Longrightarrow> hd q \<noteq> CHR ''/'' \<Longrightarrow> last q \<noteq> CHR ''/'' \<Longrightarrow> r \<noteq> [] \<Longrightarrow> hd r \<noteq> CHR ''/'' \<Longrightarrow>
   join (join p q) r = join p (q @ ''/'' @ r)"
  by (simp add: join_def)

lemma located_sdk_has_headers:
  "locate_sdk S b = (r, b') \<Longrightarrow> generated b' = generated b \<and>
     (\<exists>ps. printed b' = printed b @ ps \<and> link_lines ps = []) \<and>
     (case r of
        Inl _ \<Rightarrow> True
      | Inr (Installed root) \<Rightarrow> is_file S (join (join root ''target/include'') ''ps5/payload.h'')
      | Inr (Source root) \<Rightarrow> is_file S (join (join root ''include'') ''ps5/payload.h''))"
  by (auto simp: locate_sdk_def Let_def join_join println_def link_lines_def
      split: option.splits if_splits)

lemma last_join: "q \<noteq> [] \<Longrightarrow> last (join p q) = last q"
  by (simp add: join_def)

lemma clang_args_prints:
  "clang_args S sdk b = (args, b') \<Longrightarrow> generated b' = generated b \<and>
     (\<exists>ps. printed b' = printed b @ ps \<and> link_lines ps = [])"
  by (auto simp: clang_args_def Let_def println_def link_lines_def split: option.splits sdk.splits)

text \<open>
  C36: whatever the environment, the generator sees the SDK's headers and, unless it has said
  otherwise, no header of the host: the directories it is given are clang's own, when they are
  known, followed by those of the SDK that was located, the last of which has
  \<^verbatim>\<open>ps5/payload.h\<close>; the standard directories are switched off exactly when clang's own are
  known, and a warning is printed exactly when they are not.
\<close>

theorem headers_come_from_the_sdk:
  "case locate_sdk S b of
     (Inl _, _) \<Rightarrow> True
   | (Inr sdk, b1) \<Rightarrow>
     (case clang_args S sdk b1 of (args, b2) \<Rightarrow>
        include_dirs args =
          (case clang_resource_dir S of None \<Rightarrow> [] | Some res \<Rightarrow> [res @ ''/include'']) @
          (case sdk of Installed root \<Rightarrow> [join root ''target/include'']
           | Source root \<Rightarrow> [join root ''include/freebsd'', join root ''include'']) \<and>
        is_file S (join (last (include_dirs args)) ''ps5/payload.h'') \<and>
        (''-nostdinc'' \<in> set args \<longleftrightarrow> clang_resource_dir S \<noteq> None) \<and>
        (printed b2 = printed b1 \<longleftrightarrow> clang_resource_dir S \<noteq> None))"
proof -
  have other: "join root q \<noteq> ''-nostdinc''" if "q \<noteq> []" "last q \<noteq> CHR ''c''" for root q
    using last_join [OF that(1), of root] that(2) by auto
  obtain r b1 where l: "locate_sdk S b = (r, b1)" by (metis prod.exhaust)
  note headers = located_sdk_has_headers [OF l]
  show ?thesis
  proof (cases r)
    case (Inl e)
    with l show ?thesis by simp
  next
    case (Inr sdk)
    have "is_file S (join (last (include_dirs (fst (clang_args S sdk b1)))) ''ps5/payload.h'')"
      using headers Inr
      by (cases sdk; cases "clang_resource_dir S") (simp_all add: clang_args_def TARGET_def)
    with l Inr show ?thesis
      by (cases sdk; cases "clang_resource_dir S")
         (auto simp: clang_args_def TARGET_def println_def other other [symmetric])
  qed
qed

text \<open>The lines printed first, and what a run comes to once the SDK and the output are known.\<close>

definition rerun_lines :: "string list" where
  "rerun_lines =
     [''cargo:rerun-if-changed=build.rs'', ''cargo:rerun-if-env-changed=PS5_PAYLOAD_SDK'',
      ''cargo:rerun-if-changed=headers/ps5.h'', ''cargo:rerun-if-changed=headers/fs.h'',
      ''cargo:rerun-if-changed=headers/net.h'', ''cargo:rerun-if-changed=headers/thread.h'']"

definition http_lines :: "build_sys \<Rightarrow> string list" where
  "http_lines S = (if feature S ''http''
     then [''cargo:rustc-link-lib=SceHttp2'', ''cargo:rustc-link-lib=SceSsl'', ''cargo:rustc-link-lib=SceNet'']
     else [])"

lemma link_lines_simps [simp]:
  "link_lines (ps @ qs) = link_lines ps @ link_lines qs"
  "link_lines rerun_lines = []"
  "link_lines (http_lines S) = http_lines S"
  by (simp_all add: link_lines_def rerun_lines_def http_lines_def)

lemma build_main_cases:
  "build_main S b =
     (case locate_sdk S (b\<lparr>printed := printed b @ rerun_lines\<rparr>) of
        (Inl e, b1) \<Rightarrow> (Inl e, b1)
      | (Inr sdk, b1) \<Rightarrow>
        (case clang_args S sdk b1 of (base, b2) \<Rightarrow>
        (case env_var S ''OUT_DIR'' of
           None \<Rightarrow> (Inl ''OUT_DIR not set: NotPresent'', b2)
         | Some out \<Rightarrow>
           (case generate_all S base out b2 of
              (Inl e, b3) \<Rightarrow> (Inl e, b3)
            | (Inr _, b3) \<Rightarrow> (Inr (), b3\<lparr>printed := printed b3 @ http_lines S\<rparr>)))))"
proof -
  let ?links = "\<lambda>b. (Inr (), println ''cargo:rustc-link-lib=SceNet''
     (println ''cargo:rustc-link-lib=SceSsl'' (println ''cargo:rustc-link-lib=SceHttp2'' b)))"
  have links: "when_feature S ''http'' ?links b' = (Inr (), b'\<lparr>printed := printed b' @ http_lines S\<rparr>)" for b'
    by (simp add: when_feature_def println_def http_lines_def)
  have start: "fold (\<lambda>h. println (''cargo:rerun-if-changed=headers/'' @ h @ ''.h''))
      [''ps5'', ''fs'', ''net'', ''thread''] (println ''cargo:rerun-if-env-changed=PS5_PAYLOAD_SDK''
        (println ''cargo:rerun-if-changed=build.rs'' b)) = b\<lparr>printed := printed b @ rerun_lines\<rparr>"
    by (simp add: println_def rerun_lines_def)
  show ?thesis
    unfolding build_main_def Let_def start generate_all_def links [symmetric]
    unfolding and_then_def
    by (simp split: prod.split sum.split option.split)
qed

lemma run_generates:
  assumes "locate_sdk S (b\<lparr>printed := printed b @ rerun_lines\<rparr>) = (Inr sdk, b1)"
    and "clang_args S sdk b1 = (base, b2)" and "env_var S ''OUT_DIR'' = Some out"
    and "generated b2 = generated b" and "printed b2 = printed b @ ps" and "link_lines ps = []"
  shows "case build_main S b of (r, b') \<Rightarrow>
     \<exists>base out ps. printed b' = printed b @ ps \<and>
     (case r of
        Inr _ \<Rightarrow>
          env_var S ''OUT_DIR'' = Some out \<and>
          (\<exists>sdk b1 b2. locate_sdk S b1 = (Inr sdk, b2) \<and> base = fst (clang_args S sdk b2)) \<and>
          generated b' = generated b @ map (bindings_of base out) (enabled_domains S) \<and>
          link_lines ps = http_lines S
      | Inl _ \<Rightarrow>
          (\<exists>n. generated b' = generated b @ map (bindings_of base out) (take n (enabled_domains S))) \<and>
          link_lines ps = [])"
proof -
  obtain r b3 where run: "generate_all S base out b2 = (r, b3)" by (metis prod.exhaust)
  have st: "printed b3 = printed b2"
    "case r of Inr _ \<Rightarrow> generated b3 = generated b2 @ map (bindings_of base out) (enabled_domains S)
     | Inl _ \<Rightarrow> \<exists>n. generated b3 = generated b2 @ take n (map (bindings_of base out) (enabled_domains S))"
    using stage_generate_all run unfolding stage_def by blast+
  show ?thesis
  proof (cases r)
    case (Inl e)
    then have "build_main S b = (Inl e, b3)" using assms(1-3) run by (simp add: build_main_cases)
    moreover have "\<exists>n. generated b3 = generated b @ map (bindings_of base out) (take n (enabled_domains S))"
      using st(2) Inl assms(4) by (auto simp: take_map)
    moreover have "printed b3 = printed b @ ps" using st(1) assms(5) by simp
    ultimately show ?thesis using assms(6) by (simp only: prod.case sum.case) blast
  next
    case (Inr u)
    then have m: "build_main S b = (Inr (), b3\<lparr>printed := printed b @ ps @ http_lines S\<rparr>)"
      using assms(1-3,5) run st(1) by (simp add: build_main_cases)
    have "\<exists>sdk b1 b2. locate_sdk S b1 = (Inr sdk, b2) \<and> base = fst (clang_args S sdk b2)"
      using assms(1,2) by (metis fst_conv)
    moreover have "generated b3 = generated b @ map (bindings_of base out) (enabled_domains S)"
      using st(2) Inr assms(4) by simp
    ultimately show ?thesis
      unfolding m prod.case sum.case using assms(3,6)
      by (intro exI [of _ base] exI [of _ out] exI [of _ "ps @ http_lines S"]) simp
  qed
qed

text \<open>
  C37: the script writes the core bindings and those of exactly the enabled domains, in order,
  each from its own header with its own allowlist and all with the same clang arguments, and
  asks for the Sony libraries to be linked exactly when the HTTP domain is enabled. If it
  panics, it has written the first few of those files, and has asked for no library.
\<close>

theorem enabled_domains_are_generated:
  "case build_main S b of (r, b') \<Rightarrow>
     \<exists>base out ps. printed b' = printed b @ ps \<and>
     (case r of
        Inr _ \<Rightarrow>
          env_var S ''OUT_DIR'' = Some out \<and>
          (\<exists>sdk b1 b2. locate_sdk S b1 = (Inr sdk, b2) \<and> base = fst (clang_args S sdk b2)) \<and>
          generated b' = generated b @ map (bindings_of base out) (enabled_domains S) \<and>
          link_lines ps = http_lines S
      | Inl _ \<Rightarrow>
          (\<exists>n. generated b' = generated b @ map (bindings_of base out) (take n (enabled_domains S))) \<and>
          link_lines ps = [])"
proof -
  obtain l b1 where loc: "locate_sdk S (b\<lparr>printed := printed b @ rerun_lines\<rparr>) = (l, b1)"
    by (metis prod.exhaust)
  from located_sdk_has_headers [OF loc] obtain ps1 where
    b1: "generated b1 = generated b" "printed b1 = printed b @ rerun_lines @ ps1" "link_lines ps1 = []"
    by auto
  show ?thesis
  proof (cases l)
    case (Inl e)
    with loc b1 show ?thesis
      by (auto simp: build_main_cases intro!: exI [of _ "rerun_lines @ ps1"] exI [of _ "0 :: nat"])
  next
    case (Inr sdk)
    obtain base b2 where args: "clang_args S sdk b1 = (base, b2)" by (metis prod.exhaust)
    from clang_args_prints [OF args] obtain ps2 where
      b2: "generated b2 = generated b1" "printed b2 = printed b1 @ ps2" "link_lines ps2 = []"
      by blast
    let ?ps = "rerun_lines @ ps1 @ ps2"
    have quiet: "link_lines ?ps = []" using b1(3) b2(3) by simp
    show ?thesis
    proof (cases "env_var S ''OUT_DIR''")
      case None
      with loc Inr args b1 b2 quiet show ?thesis
        by (auto simp: build_main_cases intro!: exI [of _ ?ps] exI [of _ "0 :: nat"])
    next
      case (Some out)
      with loc Inr args b1(1,2) b2(1,2) quiet show ?thesis
        by (intro run_generates [where ps = ?ps]) simp_all
    qed
  qed
qed

end
