(* ===== verification/Error_Debug.thy ===== *)
theory Error_Debug
  imports Errors
begin

text \<open>
  The \<^verbatim>\<open>Debug\<close> renderings of \<^verbatim>\<open>crates/ps5/src/error.rs\<close>. The texts an error carries are quoted
  and escaped by the standard library; every text the crate makes is an ASCII literal, and for
  ASCII texts the escapes are those below. (Of the other characters the standard library also
  escapes the combining and unprintable ones; here they stand as they are.)
\<close>

definition hex_min :: "nat \<Rightarrow> string" where
  "hex_min n = (if n < 16 then [hex_char n] else [hex_char (n div 16), hex_char (n mod 16)])"

definition escape_debug :: "char \<Rightarrow> string" where
  "escape_debug c =
     (if c = CHR 0x00 then [CHR 0x5C, CHR ''0'']
      else if c = CHR 0x09 then [CHR 0x5C, CHR ''t'']
      else if c = CR then [CHR 0x5C, CHR ''r'']
      else if c = LF then [CHR 0x5C, CHR ''n'']
      else if c = CHR 0x22 \<or> c = CHR 0x5C then [CHR 0x5C, c]
      else if of_char c < (32 :: nat) \<or> c = CHR 0x7F
      then [CHR 0x5C, CHR ''u'', CHR ''{''] @ hex_min (of_char c) @ ''}''
      else [c])"

definition str_debug :: "string \<Rightarrow> string" where
  "str_debug s = CHR 0x22 # concat (map escape_debug s) @ [CHR 0x22]"

definition errno_debug :: "('w, 'x) sys_core_scheme \<Rightarrow> errno \<Rightarrow> string" where
  "errno_debug K e = ''Errno('' @ errno_display K e @ '')''"

definition sce_debug :: "sce_error \<Rightarrow> string" where
  "sce_debug e = ''SceError { op: '' @ str_debug (op e) @ '', code: 0x'' @ hex8 (code e) @ '' }''"

definition error_debug :: "('w, 'x) sys_core_scheme \<Rightarrow> error \<Rightarrow> string" where
  "error_debug K e =
     (case e of
        Os n \<Rightarrow> ''Os('' @ errno_debug K n @ '')''
      | Sce s \<Rightarrow> ''Sce('' @ sce_debug s @ '')''
      | Gai c \<Rightarrow> ''Gai('' @ dec_i32 c @ '')''
      | InvalidInput m \<Rightarrow> ''InvalidInput('' @ str_debug m @ '')'')"

section \<open>Quoting can be undone\<close>

lemma hex_char_range: "n < 16 \<Longrightarrow> hex_char n \<noteq> CHR ''}''"
  by (auto simp: hex_char_def dest!: arg_cong [where f = "of_char :: char \<Rightarrow> nat"] split: if_splits)

lemma hex_min_inj:
  assumes "hex_min m @ CHR ''}'' # xs = hex_min n @ CHR ''}'' # ys" and "m < 256" and "n < 256"
  shows "m = n \<and> xs = ys"
proof -
  have digit: "hex_char i = hex_char j \<longleftrightarrow> i = j" if "i < 16" "j < 16" for i j
    using hex_char_inj that by blast
  have low: "i mod 16 < 16" and high: "i < 256 \<Longrightarrow> i div 16 < 16" for i :: nat by auto
  show ?thesis
  proof (cases "m < 16"; cases "n < 16")
    assume "m < 16" "n < 16"
    with assms(1) digit show ?thesis by (simp add: hex_min_def)
  next
    assume "m < 16" "\<not> n < 16"
    with assms(1) hex_char_range [OF low [of n]] show ?thesis by (simp add: hex_min_def)
  next
    assume "\<not> m < 16" "n < 16"
    with assms(1) hex_char_range [OF low [of m]] show ?thesis by (simp add: hex_min_def)
  next
    assume "\<not> m < 16" "\<not> n < 16"
    with assms(1) digit [OF high high] digit [OF low low] assms(2,3)
    have "m div 16 = n div 16" "m mod 16 = n mod 16" "xs = ys" by (simp_all add: hex_min_def)
    then show ?thesis by (metis div_mult_mod_eq)
  qed
qed

text \<open>What a character turns into: itself, a backslash and a letter, or a code in braces.\<close>

datatype escape_kind = Plain | Short char | Braced

definition escape_kind :: "char \<Rightarrow> escape_kind" where
  "escape_kind c =
     (if c = CHR 0x00 then Short (CHR ''0'') else if c = CHR 0x09 then Short (CHR ''t'')
      else if c = CR then Short (CHR ''r'') else if c = LF then Short (CHR ''n'')
      else if c = CHR 0x22 \<or> c = CHR 0x5C then Short c
      else if of_char c < (32 :: nat) \<or> c = CHR 0x7F then Braced else Plain)"

lemma escape_debug_kind:
  "escape_debug c = (case escape_kind c of Plain \<Rightarrow> [c] | Short x \<Rightarrow> [CHR 0x5C, x]
     | Braced \<Rightarrow> [CHR 0x5C, CHR ''u'', CHR ''{''] @ hex_min (of_char c) @ ''}'')"
  by (simp add: escape_debug_def escape_kind_def)

lemma escape_kinds:
  "escape_kind c = Plain \<Longrightarrow> c \<noteq> CHR 0x22 \<and> c \<noteq> CHR 0x5C"
  "escape_kind c = Short x \<Longrightarrow> x \<noteq> CHR ''u''"
  "escape_kind c = Short x \<Longrightarrow> escape_kind d = Short x \<Longrightarrow> c = d"
  by (auto simp: escape_kind_def split: if_splits)

lemma of_char_small: "of_char (c :: char) < (256 :: nat)"
  by simp

lemma escape_debug_inj:
  assumes eq: "escape_debug c @ xs = escape_debug d @ ys"
  shows "c = d \<and> xs = ys"
proof -
  have braced: "c = d \<and> xs = ys"
    if "hex_min (of_char c) @ CHR ''}'' # xs = hex_min (of_char d) @ CHR ''}'' # ys"
    using hex_min_inj [OF that of_char_small of_char_small] by (simp only: of_char_eq_iff)
  note kinds = escape_kinds(1) [of c] escape_kinds(1) [of d] escape_kinds(2) [of c]
    escape_kinds(2) [of d]
  show ?thesis
  proof (cases "escape_kind c")
    case Plain
    with eq kinds show ?thesis by (cases "escape_kind d") (auto simp: escape_debug_kind)
  next
    case (Short x)
    show ?thesis
    proof (cases "escape_kind d")
      case Plain
      with eq Short kinds show ?thesis by (simp add: escape_debug_kind)
    next
      case (Short y)
      with eq \<open>escape_kind c = Short x\<close> have "x = y" "xs = ys" by (simp_all add: escape_debug_kind)
      with Short \<open>escape_kind c = Short x\<close> escape_kinds(3) show ?thesis by blast
    next
      case Braced
      with eq Short kinds(3) [OF Short] show ?thesis by (simp add: escape_debug_kind)
    qed
  next
    case Braced
    show ?thesis
    proof (cases "escape_kind d")
      case Plain
      with eq Braced kinds show ?thesis by (simp add: escape_debug_kind)
    next
      case (Short x)
      with eq Braced kinds(4) [OF Short] show ?thesis by (simp add: escape_debug_kind)
    next
      case Braced
      with eq \<open>escape_kind c = Braced\<close> have "hex_min (of_char c) @ CHR ''}'' # xs =
          hex_min (of_char d) @ CHR ''}'' # ys" by (simp add: escape_debug_kind)
      then show ?thesis by (rule braced)
    qed
  qed
qed

lemma escape_debug_no_quote: "escape_debug c @ xs \<noteq> CHR 0x22 # ys"
  using escape_kinds(1) [of c] by (cases "escape_kind c") (auto simp: escape_debug_kind)

lemma quoted_inj:
  "concat (map escape_debug s) @ CHR 0x22 # xs = concat (map escape_debug t) @ CHR 0x22 # ys \<Longrightarrow>
   s = t \<and> xs = ys"
proof (induction s arbitrary: t)
  case Nil
  then show ?case by (cases t) (simp_all add: escape_debug_no_quote [symmetric])
next
  case (Cons c s)
  then obtain d t' where t: "t = d # t'"
    by (cases t) (simp_all add: escape_debug_no_quote)
  with Cons.prems have "escape_debug c @ (concat (map escape_debug s) @ CHR 0x22 # xs) =
      escape_debug d @ (concat (map escape_debug t') @ CHR 0x22 # ys)" by simp
  from escape_debug_inj [OF this] Cons.IH t show ?case by blast
qed

lemma str_debug_inj: "str_debug s @ xs = str_debug t @ ys \<Longrightarrow> s = t \<and> xs = ys"
  using quoted_inj [of s xs t ys] by (simp add: str_debug_def)


section \<open>What a debug rendering tells\<close>

text \<open>The texts the crate puts into its errors.\<close>

definition ascii_text :: "string \<Rightarrow> bool" where
  "ascii_text s \<longleftrightarrow> (\<forall>c \<in> set s. of_char c < (128 :: nat))"

definition ascii_error :: "error \<Rightarrow> bool" where
  "ascii_error e =
     (case e of Sce s \<Rightarrow> ascii_text (op s) | InvalidInput m \<Rightarrow> ascii_text m | _ \<Rightarrow> True)"

lemma sce_debug_inj: "sce_debug s = sce_debug t \<Longrightarrow> s = t"
proof -
  assume "sce_debug s = sce_debug t"
  then have "str_debug (op s) @ ('', code: 0x'' @ hex8 (code s) @ '' }'') =
      str_debug (op t) @ ('', code: 0x'' @ hex8 (code t) @ '' }'')"
    by (simp add: sce_debug_def)
  from str_debug_inj [OF this] show "s = t" by (simp add: hex8_inj)
qed

text \<open>
  C38: the debug rendering of an error with ASCII texts, as the crate's errors are, tells the
  error: errors of any kinds render alike only when they are the same, whatever messages the
  system has for its codes. Quotes, backslashes and control characters in the texts are
  escaped, so no text can imitate the rest of a rendering.
\<close>

theorem debug_rendering_tells_the_error:
  assumes "ascii_error e" and "ascii_error e'"
  shows "error_debug K e = error_debug K e' \<longleftrightarrow> e = e'"
proof
  assume eq: "error_debug K e = error_debug K e'"
  have texts: "m = m'" if "str_debug m = str_debug m'" for m m'
    using str_debug_inj [of m "[]" m' "[]"] that by simp
  from eq show "e = e'"
    by (cases e; cases e')
      (simp_all add: error_debug_def errno_debug_def errno_display_inj dec_i32_inj sce_debug_inj texts)
qed simp

definition bare_core :: "unit sys_core" where
  "bare_core =
     \<lparr>sys_errno = (\<lambda>_. 0), sys_set_errno = (\<lambda>_ w. w), sys_strerror = (\<lambda>_. None),
      EINTR = 4, EAGAIN = 35, EWOULDBLOCK = 35, EINVAL = 22\<rparr>"

theorem debug_rendering_tells_the_error_witness:
  "error_debug bare_core (InvalidInput ''a'') \<noteq> error_debug bare_core (error_sce ''a'' 1)"
  using debug_rendering_tells_the_error [of "InvalidInput ''a''" "error_sce ''a'' 1" bare_core]
  by (simp add: ascii_error_def ascii_text_def error_sce_def)

end
