(* ===== verification/Spec2Isabelle.thy ===== *)
theory Spec2Isabelle
  imports Server_Shutdown Server_Isolation Http_Types Http_Reference Thread_Sharing Fs_Paths Sce_Client Build_Script Error_Debug
begin

text \<open>
  A verification of \<^verbatim>\<open>ps-payload-rust\<close>: a safe Rust layer over the PS5 payload SDK
  (\<^verbatim>\<open>crates/ps5\<close>), the HTTP/1.1 server built on it (\<^verbatim>\<open>crates/core\<close>), and the script that
  generates the raw bindings below it (\<^verbatim>\<open>crates/ps5-sys\<close>).

  How the parts interact. The server listens and accepts through the TCP wrappers, gives every
  connection to a thread of its own through the thread wrappers, and drops that thread's handle
  at once; the connection's thread reads one request, calls the handler, writes one response
  and closes the stream. All wrappers convert C return values with the helpers of
  \<^verbatim>\<open>util.rs\<close> into the \<^verbatim>\<open>Error\<close> type of \<^verbatim>\<open>error.rs\<close>. Files, directories and the HTTP client
  over the Sony libraries are further wrappers of the same kind.

  How the code is modelled.
  \<^item> A call into the SDK is a field of a parameter record over the state \<open>'w\<close> of the system:
    \<open>sys_core\<close> (errno and strerror), its extensions \<open>net_sys\<close> and \<open>fs_sys\<close>, and \<open>thread_sys\<close>,
    \<open>sce_sys\<close>. A call takes its arguments and the state and returns its value and the next
    state. Numeric flags and codes of the SDK are fields too. What a property relies on is a
    named contract about observations of the state (\<open>recv_contract\<close>: what the peer has sent and
    is not yet read; \<open>send_contract\<close>: what the peer was sent; \<open>file_contract\<close>, \<open>dir_contract\<close>,
    \<open>lseek_law\<close>, \<open>mutex_contract\<close>, \<open>wait_contract\<close>, \<open>body_contract\<close>, \<open>system_fd_calls\<close>,
    \<open>private_channels\<close>), and each is shown to hold of a concrete instance in the witnesses.
  \<^item> Errors are values, \<open>error + 'a\<close>; \<open>and_then\<close> is the question mark operator and
    \<open>then_or_drop\<close> the same with a live local whose destructor runs on the early return. Where a
    slice bound comes from a system call, the panic is an outcome of its own (\<open>failure\<close>),
    after which nothing runs, as in the release profile (\<^verbatim>\<open>panic = "abort"\<close>).
  \<^item> Strings are lists of the bytes of their UTF-8 encoding; \<open>str_valid\<close> says they are valid.
    Integers have their width, on a 64-bit little-endian target.
  \<^item> Destructors are calls of the \<open>drop_\<close> definitions where Rust runs them.
  \<^item> A loop with a measure is a total function (\<open>read_head\<close>, \<open>read_body\<close>, \<open>file_write_all\<close>).
    A loop that can go on for ever is a \<open>partial_function (option)\<close> (\<open>tcp_write_all\<close>,
    \<open>file_read_loop\<close>, \<open>read_dir_next\<close>, \<open>addrinfo_walk\<close>, \<open>drain_body\<close>, \<open>accept_loop\<close>): no
    fuel is used anywhere. That such a loop returns is proved (\<open>tcp_write_all_returns\<close>,
    \<open>read_to_end_appends_what_it_consumed\<close>, \<open>read_dir_next_skips_dots\<close>,
    \<open>lookup_host_collects\<close>, \<open>request_returns_the_body\<close>, \<open>only_blocked_threads_remain\<close>); the accept
    loop is meant to run for ever, and only what holds when it ends is stated of it.

  The theories, by the source they model.
  \<^item> \<open>Prelude\<close>, \<open>Rust_Str\<close>: machine integers, checked slices, buffers, bytes; the parts of Rust's
    standard library the code uses on strings (UTF-8 validation and lossy decoding, splitting,
    trimming, ASCII case, reading and writing numbers), with their round trips. \<open>Str_Cuts\<close>:
    where a valid string can be cut, and what is left after splitting and trimming.
  \<^item> \<open>Errors\<close>: \<^verbatim>\<open>error.rs\<close> and \<^verbatim>\<open>util.rs\<close>; \<open>Error_Debug\<close>: the \<^verbatim>\<open>Debug\<close> renderings.
  \<^item> \<open>Streams\<close>: the two loops that \<^verbatim>\<open>write_all\<close> and \<^verbatim>\<open>read_to_end\<close> are instances of, with the
    locales \<open>byte_sink\<close> and \<open>byte_source\<close> for what they promise over an endpoint within its
    contract; interpreted for sockets (\<open>Net\<close>), files (\<open>Fs\<close>) and response bodies (\<open>Sce_Client\<close>).
  \<^item> \<open>Fd_Ownership\<close>: records of opened and closed descriptors and the locale \<open>fd_constructor\<close>;
    interpreted for connecting, listening and binding (\<open>Net\<close>) and opening files (\<open>Fs_Paths\<close>).
  \<^item> \<open>Net\<close>: \<^verbatim>\<open>net.rs\<close>. \<open>Fs\<close>, \<open>Fs_Paths\<close>: \<^verbatim>\<open>fs.rs\<close>. \<open>Sce_Client\<close>: \<^verbatim>\<open>ps5/src/http.rs\<close>.
  \<^item> \<open>Thread\<close>: \<^verbatim>\<open>thread.rs\<close>, with the heap of reference-counted result slots explicit (\<open>proc\<close>),
    and the step relation \<open>life_step\<close> of a thread and its handle. \<open>Thread_Sharing\<close>: the locale
    \<open>lock_discipline\<close> and the step relation \<open>lock_step\<close> of threads that share a mutex and a
    condition variable.
  \<^item> \<open>Http_Message\<close>: \<^verbatim>\<open>Request\<close>, \<^verbatim>\<open>Response\<close>, \<^verbatim>\<open>encode\<close> and the head parser of
    \<^verbatim>\<open>core/src/http.rs\<close>. \<open>Http_Reader\<close>: \<^verbatim>\<open>read_request\<close>. \<open>Http_Server\<close>: \<^verbatim>\<open>Server\<close>,
    \<^verbatim>\<open>serve_connection\<close>, \<^verbatim>\<open>write_response\<close>. \<open>Http_Types\<close>: what every request handed to the
    handler satisfies. \<open>Http_Reference\<close>: a reference answer computed from all the bytes at once
    (\<open>reference_answer\<close>), to which serving a connection is equivalent.
  \<^item> \<open>Server_System\<close>: the whole server as a step relation (\<open>server_step\<close>) of the serving thread,
    any number of connection threads and the world outside, over one process, with the
    references to the shared handler counted. \<open>Server_Shutdown\<close>: how the threads that no peer
    blocks end once the listener has failed (\<open>unblocked_step\<close>, with \<open>system_work\<close> as the
    measure), and what the blocked ones keep (\<open>at_rest_except\<close>). \<open>Server_Isolation\<close>: what
    the connections of one server do to each other (\<open>private_channels\<close> is the contract,
    \<open>isolated\<close> the invariant).
  \<^item> \<open>Build_Script\<close>: \<^verbatim>\<open>ps5-sys/build.rs\<close>, with bindgen, clang and the environment as
    parameters.

  What the properties show. Requests: a well-formed request is read back exactly under any
  chunking, nothing a peer sends makes the reader panic, loop or take more than the limits and
  two chunks, a refused request gets the 400, a well-formed one the whole response, and a
  response is read back as it was built. Descriptors: none is lost or closed twice by the
  server, the sockets, the files, or a connection's thread; in the whole server every open
  descriptor, every result slot and every reference to the handler has an owner under all
  interleavings; when serving has stopped the threads that no peer blocks run to their ends, and
  nothing is left but what the blocked ones hold.
  Connections: no two share a descriptor, and each is sent a prefix of one answer, by its own
  thread alone. Answers: a function of the bytes the
  peer sent, not of how the network cuts them, but for heads that end within a chunk beyond the
  header limit. Threads: the closure's value meets
  exactly one fate under every interleaving, and no update through guards is lost, also when
  threads wait and are notified. Files: what
  was written is read back, seeking goes where asked, the flags are those asked for. The HTTP
  client frees what it makes, in reverse. The property of this theory joins the server's,
  the thread's and the socket's part.

  Bounds. \<open>READ_CHUNK\<close> and the limits are those of the source; the properties hold for any
  limits of the server.

  Not modelled: the generated bindings (\<^verbatim>\<open>ps5-sys/src/lib.rs\<close>) and the extern declarations
  (\<^verbatim>\<open>ps5-sys/src/sce.rs\<close>) are the parameters; the crate roots only re-export; allocation
  failure, stack use and the scheduler's timing are left out, as are the escapes of non-ASCII
  characters in \<^verbatim>\<open>Debug\<close> renderings. A call of the model always returns: what is said to return
  does so unless a system call blocks for ever (the code sets no timeout on a socket), and in
  \<open>server_step\<close> a thread that is blocked so is one whose step is never taken. In the
  step relations the calls of one wrapper operation, and in \<open>server_step\<close> those of one
  connection, are taken together; what other threads do between them is part of the state the
  next call finds.
\<close>

section \<open>A connection from its thread's start to its end\<close>

text \<open>
  C9: a connection's thread, started with a well-formed request waiting on a connection that
  keeps working, runs to its end: the peer has been sent exactly the encoding of the handler's
  response, closing the stream was the last thing done to the system, and the thread has given
  up its reference to its result slot, which is freed if the server dropped the handle first
  and otherwise holds the thread's result.
\<close>

theorem spawned_connection_is_served:
  assumes "conn_contract K (cn_stream c) pend log"
    and "\<And>req w. log (snd (handler req w)) = log w"
    and "\<And>fd w. log (snd (net_close K fd w)) = log w"
    and "recv_reliable K (cn_stream c)" and "wire_request (cn_limits c) req"
    and "length (request_head req) + 3 \<le> unat (max_header_bytes (cn_limits c))"
    and "pend (os p) = render_request req @ rest"
    and sends: "\<And>buf w ret w'. net_send K (stream_fd (cn_stream c)) buf 0 w = (ret, w') \<Longrightarrow>
      ret \<noteq> -1 \<and> (buf \<noteq> [] \<longrightarrow> ret \<noteq> 0)"
    and "cells p a = Some \<lparr>strong = n, slot = None\<rparr>" and "0 < n"
  shows "\<exists>w1 w2 p'. read_request K (cn_stream c) (cn_limits c) (os p) = (Inr (Some req), w1) \<and>
    trampoline (run_connection K handler) \<lparr>closure = c, packet_shared = a\<rparr> p = Some p' \<and>
    os p' = snd (net_close K (stream_fd (cn_stream c)) w2) \<and>
    log (os p') = log (os p) @ encode (fst (handler req w1)) \<and>
    cells p' a = (if n = 1 then None else Some \<lparr>strong = n - 1, slot = Some ()\<rparr>)"
proof -
  have sends': "\<forall>buf w ret w'. net_send K (stream_fd (cn_stream c)) buf 0 w = (ret, w') \<longrightarrow>
      ret \<noteq> -1 \<and> (buf \<noteq> [] \<longrightarrow> ret \<noteq> 0)"
    using sends by blast
  obtain w1 w2 where rd: "read_request K (cn_stream c) (cn_limits c) (os p) = (Inr (Some req), w1)"
    and sv: "serve_connection K (cn_stream c) handler (cn_limits c) (os p) = Some (Inr (), w2)"
    and lg: "log w2 = log (os p) @ encode (fst (handler req w1))"
    using well_formed_answer [where K = K and s = "cn_stream c" and pend = pend and log = log and
        handler = handler and lim = "cn_limits c" and req = req and w = "os p" and rest = rest,
        OF assms(1,2,4-7) sends'] by blast
  have run: "run_connection K handler c (os p) = Some ((), snd (net_close K (stream_fd (cn_stream c)) w2))"
    using sv by (simp add: run_connection_def drop_connection_def drop_tcp_stream_def close_fd_def)
  show ?thesis
    using rd run lg assms(3,9,10)
    by (intro exI [of _ w1] exI [of _ w2])
       (auto simp: trampoline_def slot_store_def arc_drop_def)
qed

text \<open>The state after the server has dropped the handle: one reference, the thread's.\<close>

definition detached_proc :: "(unit, u8 list \<times> u8 list) proc" where
  "detached_proc =
     \<lparr>cells = [0 \<mapsto> \<lparr>strong = 1, slot = None\<rparr>], fresh = 1, dropped = [],
      os = (render_request sample_request, [])\<rparr>"

theorem spawned_connection_is_served_witness:
  "\<exists>p'. trampoline (run_connection (drip_net 3) echo_handler)
     \<lparr>closure = \<lparr>cn_stream = \<lparr>stream_fd = 4\<rparr>, cn_limits = sample_limits\<rparr>, packet_shared = 0\<rparr> detached_proc =
     Some p' \<and> snd (os p') = encode (with_body response_ok [7, 9]) \<and> cells p' 0 = None"
proof -
  let ?c = "\<lparr>cn_stream = \<lparr>stream_fd = 4\<rparr>, cn_limits = sample_limits\<rparr>"
  have c: "conn_contract (drip_net 3) (cn_stream ?c) fst snd" "recv_reliable (drip_net 3) (cn_stream ?c)"
    by (simp_all add: drip_conn_contract drip_reliable)
  have h: "snd (snd (echo_handler req w)) = snd w" for req and w :: "u8 list \<times> u8 list"
    by (simp add: echo_handler_def)
  have cl: "snd (snd (net_close (drip_net 3) fd w)) = snd w" for fd w
    by (simp add: drip_net_def inert_net_def)
  have wire: "wire_request (cn_limits ?c) sample_request" by (simp add: sample_wire)
  have fits: "length (request_head sample_request) + 3 \<le> unat (max_header_bytes (cn_limits ?c))"
    by (simp add: sample_limit_values sample_head)
  have p: "fst (os detached_proc) = render_request sample_request @ []"
    "cells detached_proc 0 = Some \<lparr>strong = 1, slot = None\<rparr>" "(0::nat) < 1"
    by (simp_all add: detached_proc_def)
  have "\<exists>w1 w2 p'. read_request (drip_net 3) (cn_stream ?c) (cn_limits ?c) (os detached_proc) =
      (Inr (Some sample_request), w1) \<and>
    trampoline (run_connection (drip_net 3) echo_handler) \<lparr>closure = ?c, packet_shared = 0\<rparr> detached_proc =
      Some p' \<and>
    os p' = snd (net_close (drip_net 3) (stream_fd (cn_stream ?c)) w2) \<and>
    snd (os p') = snd (os detached_proc) @ encode (fst (echo_handler sample_request w1)) \<and>
    cells p' 0 = (if (1::nat) = 1 then None else Some \<lparr>strong = 1 - 1, slot = Some ()\<rparr>)"
    by (rule spawned_connection_is_served [where pend = fst and log = snd and rest = "[]",
          OF c(1) h cl c(2) wire fits p(1) _ p(2,3)]) (rule drip_sends)
  then show ?thesis by (auto simp: detached_proc_def echo_handler_def sample_request_def)
qed

end
